theory Spec2Isabelle
  imports Main "HOL-Library.AList" "HOL-Library.Sublist"
begin

section \<open>Python values used by the program\<close>

text \<open>
  Strings are lists of characters, Python's unbounded integers are \<open>int\<close>, and a
  \<^verbatim>\<open>dict\<close> is an association list with distinct keys in insertion order:
  \<open>map_of d k\<close> is \<^verbatim>\<open>d.get(k)\<close>, \<open>AList.update k v d\<close> is
  \<^verbatim>\<open>d[k] = v\<close> (an existing key keeps its place, a new one goes last) and
  \<open>AList.delete k d\<close> is \<^verbatim>\<open>del d[k]\<close>.
\<close>

datatype error =
  AttributeError | FileNotFoundError | ValueError | OSError | RuntimeError

definition is_space :: "char \<Rightarrow> bool" where
  \<comment> \<open>the characters below 256 that \<^verbatim>\<open>\s\<close> and \<^verbatim>\<open>str.strip\<close> treat as white space\<close>
  "is_space c = (of_char c \<in> {9, 10, 11, 12, 13, 28, 29, 30, 31, 32, 133, 160 :: nat})"

definition strip :: "string \<Rightarrow> string" where
  "strip s = rev (dropWhile is_space (rev (dropWhile is_space s)))"

fun join :: "string \<Rightarrow> string list \<Rightarrow> string" where
  "join sep [] = []"
| "join sep [x] = x"
| "join sep (x # y # ys) = x @ sep @ join sep (y # ys)"

definition digit_char :: "nat \<Rightarrow> char" where
  "digit_char d = ''0123456789'' ! d"

definition digit_val :: "char \<Rightarrow> nat option" where
  \<comment> \<open>the value of a decimal digit, by its code\<close>
  "digit_val c =
     (let n = (of_char c :: nat) in if 48 \<le> n \<and> n \<le> 57 then Some (n - 48) else None)"

fun str_of_nat :: "nat \<Rightarrow> string" where
  "str_of_nat n =
     (if n < 10 then [digit_char n] else str_of_nat (n div 10) @ [digit_char (n mod 10)])"

declare str_of_nat.simps [simp del]

definition str_of_int :: "int \<Rightarrow> string" where
  \<comment> \<open>\<^verbatim>\<open>str(k)\<close> for an integer \<open>k\<close>\<close>
  "str_of_int k = (if k < 0 then CHR ''-'' # str_of_nat (nat (- k)) else str_of_nat (nat k))"

fun nat_of_digits :: "nat \<Rightarrow> string \<Rightarrow> nat option" where
  "nat_of_digits acc [] = Some acc"
| "nat_of_digits acc (c # cs) =
     (case digit_val c of None \<Rightarrow> None | Some d \<Rightarrow> nat_of_digits (10 * acc + d) cs)"

definition int_of_str :: "string \<Rightarrow> int option" where
  \<comment> \<open>\<^verbatim>\<open>int(s)\<close> on a plain decimal numeral with an optional sign; \<open>None\<close> is the
      \<^verbatim>\<open>ValueError\<close>. (Python also accepts surrounding white space and underscores
      between digits, which \<^verbatim>\<open>str\<close> never produces.)\<close>
  "int_of_str s =
     (case s of
        [] \<Rightarrow> None
      | c # cs \<Rightarrow>
          if c = CHR ''-'' then (if cs = [] then None else map_option (\<lambda>n. - int n) (nat_of_digits 0 cs))
          else if c = CHR ''+'' then (if cs = [] then None else map_option int (nat_of_digits 0 cs))
          else map_option int (nat_of_digits 0 s))"

definition dict_of :: "('k \<times> 'v) list \<Rightarrow> ('k \<times> 'v) list" where
  \<comment> \<open>a dict comprehension over the given items: a repeated key keeps its first place and
      its last value\<close>
  "dict_of kvs = foldl (\<lambda>d (k, v). AList.update k v d) [] kvs"


section \<open>The mapping table and its persisted form (config.py)\<close>

text \<open>
  \<^verbatim>\<open>save_mappings\<close> dumps one JSON document with the two maps; JSON object keys are
  strings, so the ids of \<^verbatim>\<open>id_to_file\<close> are written with \<^verbatim>\<open>str\<close> and read back
  with \<^verbatim>\<open>int\<close>. The document is modelled after parsing: \<^verbatim>\<open>json.dump\<close> followed
  by \<^verbatim>\<open>json.load\<close> returns the same string-keyed objects.
\<close>

record mappings_doc =
  file_to_id :: "(string \<times> int) list"
  id_to_file :: "(string \<times> string) list"

datatype mappings_file = NoFile | Malformed | Document mappings_doc

definition save_mappings ::
  "(string \<times> int) list \<Rightarrow> (int \<times> string) list \<Rightarrow> mappings_doc" where
  "save_mappings path_to_id id_to_path =
     \<lparr> file_to_id = dict_of (map (\<lambda>(k, v). (k, v)) path_to_id),
       id_to_file = dict_of (map (\<lambda>(k, v). (str_of_int k, v)) id_to_path) \<rparr>"

fun int_keys :: "(string \<times> string) list \<Rightarrow> (int \<times> string) list option" where
  "int_keys [] = Some []"
| "int_keys ((k, v) # kvs) =
     (case int_of_str k of
        None \<Rightarrow> None
      | Some i \<Rightarrow> (case int_keys kvs of None \<Rightarrow> None | Some r \<Rightarrow> Some ((i, v) # r)))"

definition load_mappings ::
  "mappings_file \<Rightarrow> (string \<times> int) list \<times> (int \<times> string) list \<Rightarrow>
     (string \<times> int) list \<times> (int \<times> string) list" where
  \<comment> \<open>the second argument is the pair of global maps before the call\<close>
  "load_mappings f maps =
     (case f of
        NoFile \<Rightarrow> maps
      | Malformed \<Rightarrow> ([], [])
      | Document data \<Rightarrow>
          (case int_keys (id_to_file data) of
             None \<Rightarrow> ([], [])
           | Some kvs \<Rightarrow> (dict_of (map (\<lambda>(k, v). (k, v)) (file_to_id data)), dict_of kvs)))"


section \<open>The retriever (config.py)\<close>

datatype read_result = Content string | Missing | Unreadable

text \<open>
  \<^verbatim>\<open>retrieve_relevant_chunks\<close>: the ids are those of row 0 of the index search, the
  file system is a function from a path to what \<^verbatim>\<open>open(path).read()\<close> does there.
  Only \<^verbatim>\<open>FileNotFoundError\<close> is caught; any other failure of the read leaves the
  function as an exception. A failure of the embedding or of the search is the \<open>Inl\<close> of
  the first argument.
\<close>

fun retrieve_loop ::
  "(int \<times> string) list \<Rightarrow> (string \<Rightarrow> read_result) \<Rightarrow> int list \<Rightarrow> string list \<Rightarrow>
     error + string list" where
  "retrieve_loop id_to_path fs [] relevant_chunks = Inr relevant_chunks"
| "retrieve_loop id_to_path fs (vector_id # rest) relevant_chunks =
     (case map_of id_to_path vector_id of
        None \<Rightarrow> retrieve_loop id_to_path fs rest relevant_chunks
      | Some file_path \<Rightarrow>
          if file_path = [] then retrieve_loop id_to_path fs rest relevant_chunks
          else (case fs file_path of
                  Content content \<Rightarrow>
                    retrieve_loop id_to_path fs rest (relevant_chunks @ [content])
                | Missing \<Rightarrow> retrieve_loop id_to_path fs rest relevant_chunks
                | Unreadable \<Rightarrow> Inl OSError))"

definition retrieve_relevant_chunks ::
  "(int \<times> string) list \<Rightarrow> (string \<Rightarrow> read_result) \<Rightarrow> error + int list \<Rightarrow> error + string" where
  "retrieve_relevant_chunks id_to_path fs search =
     (case search of
        Inl e \<Rightarrow> Inl e
      | Inr indices \<Rightarrow>
          (case retrieve_loop id_to_path fs indices [] of
             Inl e \<Rightarrow> Inl e
           | Inr relevant_chunks \<Rightarrow> Inr (join [CHR 0x0A, CHR 0x0A] relevant_chunks)))"

definition resolve :: "(int \<times> string) list \<Rightarrow> (string \<Rightarrow> read_result) \<Rightarrow> int \<Rightarrow> string option" where
  \<comment> \<open>the text an id resolves to: it has a mapping entry and the mapped file can be read\<close>
  "resolve id_to_path fs vector_id =
     (case map_of id_to_path vector_id of
        None \<Rightarrow> None
      | Some file_path \<Rightarrow>
          if file_path = [] then None
          else (case fs file_path of Content content \<Rightarrow> Some content | _ \<Rightarrow> None))"

definition unreadable :: "(int \<times> string) list \<Rightarrow> (string \<Rightarrow> read_result) \<Rightarrow> int \<Rightarrow> bool" where
  "unreadable id_to_path fs vector_id =
     (case map_of id_to_path vector_id of
        None \<Rightarrow> False
      | Some file_path \<Rightarrow> file_path \<noteq> [] \<and> fs file_path = Unreadable)"


section \<open>The annotation generator (uci\_splitter\_Add\_Coment.py)\<close>

text \<open>
  The chat-completion call is a function from the prompt to its outcome: a reply whose
  \<^verbatim>\<open>content\<close> is a string, a reply without content (\<^verbatim>\<open>None.strip()\<close> raises
  inside the \<^verbatim>\<open>try\<close>), or an exception of the client.
\<close>

datatype llm_reply = Reply string | NoContent | LlmError

definition annotation_prompt :: "string \<Rightarrow> string \<Rightarrow> nat \<Rightarrow> string" where
  "annotation_prompt buffer_content current_package chunk_num =
     ''Please generate a summary annotation for the '' @ str_of_nat chunk_num
       @ ''th chunk file of the '' @ current_package
       @ '' package,it would be great if used in simple and easy-to-understand statements. ''
       @ ''Don't copy the code to the summary. The file content is as follows: ''
       @ buffer_content"

definition fallback_annotation :: "string \<Rightarrow> nat \<Rightarrow> string" where
  "fallback_annotation current_package chunk_num =
     ''This is the '' @ str_of_nat chunk_num @ ''th chunk file of the ''
       @ current_package @ '' package.''"

definition generate_annotation :: "(string \<Rightarrow> llm_reply) \<Rightarrow> string \<Rightarrow> string \<Rightarrow> nat \<Rightarrow> string" where
  "generate_annotation client buffer_content current_package chunk_num =
     (case client (annotation_prompt buffer_content current_package chunk_num) of
        Reply content \<Rightarrow> strip content
      | NoContent \<Rightarrow> fallback_annotation current_package chunk_num
      | LlmError \<Rightarrow> fallback_annotation current_package chunk_num)"


section \<open>The chunker (uci\_splitter\_Add\_Coment.py)\<close>

text \<open>
  A directory is the list of its files, name and text, in the order in which they were
  created; that order is also the order in which \<^verbatim>\<open>glob\<close> yields them.
  \<open>glob pre suf d\<close> is \<^verbatim>\<open>d.glob(f"{pre}*{suf}")\<close> for a prefix without glob
  metacharacters.
\<close>

type_synonym dir = "(string \<times> string) list"

definition glob_match :: "string \<Rightarrow> string \<Rightarrow> string \<Rightarrow> bool" where
  "glob_match pre suf name =
     (length pre + length suf \<le> length name \<and> take (length pre) name = pre
        \<and> drop (length name - length suf) name = suf)"

definition glob :: "string \<Rightarrow> string \<Rightarrow> dir \<Rightarrow> string list" where
  "glob pre suf d = filter (glob_match pre suf) (map fst d)"

definition unlink :: "string \<Rightarrow> dir \<Rightarrow> error + dir" where
  "unlink name d =
     (if name \<in> fst ` set d then Inr (AList.delete name d) else Inl FileNotFoundError)"

definition replace_dots :: "string \<Rightarrow> string" where
  \<comment> \<open>\<^verbatim>\<open>.replace('.', '_')\<close>\<close>
  "replace_dots s = map (\<lambda>c. if c = CHR ''.'' then CHR ''_'' else c) s"

definition match_package :: "string \<Rightarrow> string option" where
  \<comment> \<open>\<^verbatim>\<open>package_pattern.match(line)\<close> for \<^verbatim>\<open>^package\s+(\S+)\<close>, giving group 1\<close>
  "match_package line =
     (if take 7 line = ''package'' then
        (let rest = drop 7 line;
             name = takeWhile (\<lambda>c. \<not> is_space c) (dropWhile is_space rest)
         in if takeWhile is_space rest \<noteq> [] \<and> name \<noteq> [] then Some name else None)
      else None)"

definition match_config_header :: "string \<Rightarrow> bool" where
  \<comment> \<open>\<^verbatim>\<open>config_header_pattern.match(line)\<close> for \<^verbatim>\<open>^config\s+(\S+)\s+\'(\S+)\'\<close>:
      after the opening quote the run of non-space characters must hold a further quote
      behind at least one character\<close>
  "match_config_header line =
     (take 6 line = ''config'' \<and>
      (let r1 = drop 6 line;
           r2 = dropWhile is_space r1;
           r3 = dropWhile (\<lambda>c. \<not> is_space c) r2;
           r4 = dropWhile is_space r3
       in takeWhile is_space r1 \<noteq> [] \<and> takeWhile (\<lambda>c. \<not> is_space c) r2 \<noteq> []
            \<and> takeWhile is_space r3 \<noteq> []
            \<and> (case r4 of
                  [] \<Rightarrow> False
                | q # r5 \<Rightarrow> q = CHR 0x27 \<and> CHR 0x27 \<in> set (drop 1 (takeWhile (\<lambda>c. \<not> is_space c) r5)))))"

definition md5_hexdigest :: "string \<Rightarrow> string" where
  \<comment> \<open>the digest of a text stands for the text: equal texts have equal digests, and the
      collisions of MD5 are not modelled\<close>
  "md5_hexdigest s = s"

record splitter =
  max_chunk_size :: nat
  overlap :: nat
  last_buffer_hash :: "string option"

text \<open>
  The splitter object also keeps \<^verbatim>\<open>annotation_dict\<close>, which is written and never
  read; it is left out. A task is the tuple \<^verbatim>\<open>(filename, buffer_content,
  current_package, chunk_num)\<close> that \<^verbatim>\<open>_flush_buffer\<close> returns, the file name
  without its directory.
\<close>

type_synonym task = "string \<times> string \<times> string \<times> nat"

definition chunk_text :: "string \<Rightarrow> string \<Rightarrow> string" where
  "chunk_text current_package buffer_content =
     ''# Parent Package: '' @ current_package @ [CHR 0x0A, CHR 0x0A] @ buffer_content"

definition flush_buffer ::
  "splitter \<Rightarrow> dir \<Rightarrow> string list \<Rightarrow> string option \<Rightarrow> error + (splitter \<times> dir \<times> task option)" where
  "flush_buffer self output_dir buf current_package =
     (if buf = [] then Inr (self, output_dir, None)
      else
        (let buffer_content = concat buf;
             current_hash = md5_hexdigest buffer_content
         in if Some current_hash = last_buffer_hash self then Inr (self, output_dir, None)
            else
              (case current_package of
                 None \<Rightarrow> Inl AttributeError
               | Some pkg \<Rightarrow>
                   (let safe_pkg = replace_dots pkg;
                        chunk_num = length (glob (safe_pkg @ ''_'') ''.txt'' output_dir) + 1;
                        filename = safe_pkg @ ''_part'' @ str_of_nat chunk_num @ ''.txt''
                    in Inr (self\<lparr>last_buffer_hash := Some current_hash\<rparr>,
                            AList.update filename (chunk_text pkg buffer_content) output_dir,
                            Some (filename, buffer_content, pkg, chunk_num))))))"

fun find_first :: "('a \<Rightarrow> bool) \<Rightarrow> 'a list \<Rightarrow> nat option" where
  \<comment> \<open>the index at which \<^verbatim>\<open>for i, x in enumerate(xs)\<close> first meets the test\<close>
  "find_first P [] = None"
| "find_first P (x # xs) = (if P x then Some 0 else map_option Suc (find_first P xs))"

definition last_config_pos :: "string list \<Rightarrow> nat option" where
  \<comment> \<open>\<open>None\<close> is the value \<^verbatim>\<open>-1\<close> of the source\<close>
  "last_config_pos buf =
     map_option (\<lambda>i. length buf - i - 1) (find_first match_config_header (rev buf))"

definition last_lines :: "nat \<Rightarrow> 'a list \<Rightarrow> 'a list" where
  \<comment> \<open>\<^verbatim>\<open>xs[-k:]\<close> for \<open>k \<ge> 0\<close>; \<^verbatim>\<open>xs[-0:]\<close> is \<^verbatim>\<open>xs[0:]\<close>, the whole list\<close>
  "last_lines k xs = (if k = 0 then xs else drop (length xs - k) xs)"

record loop_state =
  st_package :: "string option"
  st_buffer :: "string list"
  st_size :: nat
  st_tasks :: "task list"
  st_splitter :: splitter
  st_dir :: dir

definition add_task :: "task option \<Rightarrow> task list \<Rightarrow> task list" where
  \<comment> \<open>\<^verbatim>\<open>if task: tasks.append(task)\<close>\<close>
  "add_task t ts = (case t of None \<Rightarrow> ts | Some x \<Rightarrow> ts @ [x])"

definition on_package :: "loop_state \<Rightarrow> string \<Rightarrow> error + loop_state" where
  \<comment> \<open>lines 82 to 91: a package declaration flushes the pending buffer\<close>
  "on_package st line =
     (case match_package line of
        None \<Rightarrow> Inr st
      | Some name \<Rightarrow>
          if st_buffer st \<noteq> [] then
            (case flush_buffer (st_splitter st) (st_dir st) (st_buffer st) (st_package st) of
               Inl e \<Rightarrow> Inl e
             | Inr (self, d, t) \<Rightarrow>
                 Inr (st\<lparr>st_package := Some name, st_buffer := [], st_size := 0,
                         st_tasks := add_task t (st_tasks st), st_splitter := self, st_dir := d\<rparr>))
          else Inr (st\<lparr>st_package := Some name\<rparr>))"

definition on_overflow :: "loop_state \<Rightarrow> error + loop_state" where
  \<comment> \<open>lines 98 to 124: the body of the test \<^verbatim>\<open>buffer_size + line_length > max_chunk_size\<close>\<close>
  "on_overflow st =
     (case last_config_pos (st_buffer st) of
        Some pos \<Rightarrow>
          (let chunk_part1 = take (pos + 1) (st_buffer st);
               chunk_part2 = drop (pos + 1) (st_buffer st)
           in case flush_buffer (st_splitter st) (st_dir st) chunk_part1 (st_package st) of
                Inl e \<Rightarrow> Inl e
              | Inr (self, d, t) \<Rightarrow>
                  (let buf = last_lines (overlap self) chunk_part1 @ chunk_part2
                   in Inr (st\<lparr>st_buffer := buf, st_size := sum_list (map length buf),
                              st_tasks := add_task t (st_tasks st), st_splitter := self,
                              st_dir := d\<rparr>)))
      | None \<Rightarrow>
          (case flush_buffer (st_splitter st) (st_dir st) (st_buffer st) (st_package st) of
             Inl e \<Rightarrow> Inl e
           | Inr (self, d, t) \<Rightarrow>
               Inr (st\<lparr>st_buffer := [], st_size := 0, st_tasks := add_task t (st_tasks st),
                       st_splitter := self, st_dir := d\<rparr>)))"

definition split_line :: "loop_state \<Rightarrow> string \<Rightarrow> error + loop_state" where
  \<comment> \<open>one turn of \<^verbatim>\<open>for line in f\<close>\<close>
  "split_line st line =
     (case on_package st line of
        Inl e \<Rightarrow> Inl e
      | Inr st1 \<Rightarrow>
          (case (if st_size st1 + length line > max_chunk_size (st_splitter st1)
                 then on_overflow st1 else Inr st1) of
             Inl e \<Rightarrow> Inl e
           | Inr st2 \<Rightarrow>
               Inr (st2\<lparr>st_buffer := st_buffer st2 @ [line],
                        st_size := st_size st2 + length line\<rparr>)))"

fun split_lines :: "loop_state \<Rightarrow> string list \<Rightarrow> error + loop_state" where
  "split_lines st [] = Inr st"
| "split_lines st (line # rest) =
     (case split_line st line of Inl e \<Rightarrow> Inl e | Inr st' \<Rightarrow> split_lines st' rest)"

definition split_chunks :: "splitter \<Rightarrow> string list \<Rightarrow> dir \<Rightarrow> error + (splitter \<times> dir \<times> task list)" where
  \<comment> \<open>lines 74 to 133: the loop over the lines of the input file and the last flush\<close>
  "split_chunks self input_lines output_dir =
     (case split_lines \<lparr>st_package = None, st_buffer = [], st_size = 0, st_tasks = [],
                          st_splitter = self, st_dir = output_dir\<rparr> input_lines of
        Inl e \<Rightarrow> Inl e
      | Inr st \<Rightarrow>
          if st_buffer st \<noteq> [] then
            (case flush_buffer (st_splitter st) (st_dir st) (st_buffer st) (st_package st) of
               Inl e \<Rightarrow> Inl e
             | Inr (self', d, t) \<Rightarrow> Inr (self', d, add_task t (st_tasks st)))
          else Inr (st_splitter st, st_dir st, st_tasks st))"

text \<open>
  The annotations are computed by a thread pool and written as they complete, each to the
  file of its chunk's name; the model writes them in the order of the tasks.
\<close>

fun write_annotations :: "(string \<Rightarrow> llm_reply) \<Rightarrow> task list \<Rightarrow> dir \<Rightarrow> dir" where
  "write_annotations client [] annotation_dir = annotation_dir"
| "write_annotations client ((filename, buffer_content, current_package, chunk_num) # rest)
       annotation_dir =
     write_annotations client rest
       (AList.update filename
          (generate_annotation client buffer_content current_package chunk_num) annotation_dir)"

definition split_config ::
  "(string \<Rightarrow> llm_reply) \<Rightarrow> splitter \<Rightarrow> string list \<Rightarrow> dir \<Rightarrow> dir \<Rightarrow>
     error + (splitter \<times> dir \<times> dir)" where
  \<comment> \<open>the input file is given by its lines, each with its line terminator\<close>
  "split_config client self input_lines output_dir annotation_dir =
     (case split_chunks self input_lines output_dir of
        Inl e \<Rightarrow> Inl e
      | Inr (self', d, ts) \<Rightarrow> Inr (self', d, write_annotations client ts annotation_dir))"

fun lines_from :: "string \<Rightarrow> string \<Rightarrow> string list" where
  "lines_from cur [] = (if cur = [] then [] else [cur])"
| "lines_from cur (c # cs) =
     (if c = CHR 0x0A then (cur @ [c]) # lines_from [] cs else lines_from (cur @ [c]) cs)"

definition file_lines :: "string \<Rightarrow> string list" where
  \<comment> \<open>the lines \<^verbatim>\<open>for line in f\<close> yields for a text without carriage returns\<close>
  "file_lines text = lines_from [] text"

section \<open>The vector index (the faiss library, as config.py uses it)\<close>

text \<open>
  The index is an \<^verbatim>\<open>IndexIVFFlat\<close> of the faiss library. The program reads its
  attribute \<^verbatim>\<open>ntotal\<close> and calls \<^verbatim>\<open>add\<close> and \<^verbatim>\<open>remove_ids\<close>. In
  the library \<^verbatim>\<open>ntotal\<close> is the number of vectors that the index holds:
  \<^verbatim>\<open>add\<close> of one vector stores it under the id \<^verbatim>\<open>ntotal\<close> and increments
  \<^verbatim>\<open>ntotal\<close>; \<^verbatim>\<open>remove_ids\<close> deletes every stored vector whose id is
  selected, leaves the other ids as they are, and subtracts the number of deleted vectors
  from \<^verbatim>\<open>ntotal\<close>. The vectors themselves play no part in the claims; the model
  keeps the ids of the stored vectors in the order of insertion. \<open>added_ever\<close> is not
  a field of the library: it counts the calls of \<^verbatim>\<open>add\<close> in the index's history,
  so that claims about that count can be stated.
\<close>

record faiss_index =
  ntotal :: int
  stored_ids :: "int list"
  added_ever :: nat

definition new_index :: faiss_index where
  "new_index = \<lparr> ntotal = 0, stored_ids = [], added_ever = 0 \<rparr>"

definition index_add :: "faiss_index \<Rightarrow> faiss_index" where
  \<comment> \<open>\<^verbatim>\<open>vector_db.add(embedding)\<close> for one vector\<close>
  "index_add ix =
     ix\<lparr> ntotal := ntotal ix + 1, stored_ids := stored_ids ix @ [ntotal ix],
         added_ever := Suc (added_ever ix) \<rparr>"

definition remove_ids :: "int list \<Rightarrow> faiss_index \<Rightarrow> faiss_index" where
  \<comment> \<open>\<^verbatim>\<open>vector_db.remove_ids(np.array(ids))\<close>\<close>
  "remove_ids sel ix =
     ix\<lparr> ntotal := ntotal ix - int (length (filter (\<lambda>i. i \<in> set sel) (stored_ids ix))),
         stored_ids := filter (\<lambda>i. i \<notin> set sel) (stored_ids ix) \<rparr>"


section \<open>The sync coordinator (config.py)\<close>

text \<open>
  The state is the module's globals and the files it works on: the splitter object, the
  directories \<^verbatim>\<open>uci_configs\<close>, \<^verbatim>\<open>uci_annotations\<close> and
  \<^verbatim>\<open>uci_configs/knowledge\<close>, the index in memory, the two dictionaries, and the two
  persisted files. \<open>disk_ok\<close> lists the outcomes of the coming attempts to write a
  persisted file (\<open>False\<close>: the write raises \<^verbatim>\<open>OSError\<close>; past the end of the list
  every write succeeds). The log of \<^verbatim>\<open>collect_print\<close> is not modelled. A raise is
  \<open>Inl\<close>; the state a raise leaves behind is not kept.
\<close>

record sys =
  splitter_obj :: splitter
  uci_config_dir :: dir
  uci_annotation_dir :: dir
  knowledge_dir :: dir
  vector_db :: faiss_index
  file_path_to_vector_id :: "(string \<times> int) list"
  vector_id_to_file_path :: "(int \<times> string) list"
  vector_db_path :: "faiss_index option"
  mappings_path :: mappings_file
  disk_ok :: "bool list"

text \<open>
  The collaborators: the router's answer to \<^verbatim>\<open>uci export <package>\<close> and to
  \<^verbatim>\<open>uci export\<close>, the chat-completion client, and whether the embedding model yields
  a vector for a text (\<^verbatim>\<open>get_embedding\<close> raises \<^verbatim>\<open>ValueError\<close> otherwise).
\<close>

record world =
  export_package :: "string \<Rightarrow> string"
  export_all :: string
  llm_client :: "string \<Rightarrow> llm_reply"
  embeds :: "string \<Rightarrow> bool"

definition config_path :: "string \<Rightarrow> string" where
  \<comment> \<open>\<^verbatim>\<open>str(UCI_CONFIG_DIR / name)\<close>\<close>
  "config_path name = ''uci_configs/'' @ name"

definition knowledge_path :: "string \<Rightarrow> string" where
  "knowledge_path name = ''uci_configs/knowledge/'' @ name"

definition write_persisted :: "(sys \<Rightarrow> sys) \<Rightarrow> sys \<Rightarrow> error + sys" where
  \<comment> \<open>one attempt to write a persisted file\<close>
  "write_persisted store s =
     (case disk_ok s of
        [] \<Rightarrow> Inr (store s)
      | ok # rest \<Rightarrow> if ok then Inr (store (s\<lparr>disk_ok := rest\<rparr>)) else Inl OSError)"

definition write_index :: "sys \<Rightarrow> error + sys" where
  \<comment> \<open>\<^verbatim>\<open>faiss.write_index(vector_db, str(VECTOR_DB_PATH))\<close>\<close>
  "write_index s = write_persisted (\<lambda>s. s\<lparr>vector_db_path := Some (vector_db s)\<rparr>) s"

definition write_mappings :: "sys \<Rightarrow> error + sys" where
  \<comment> \<open>the call \<^verbatim>\<open>save_mappings()\<close> on the globals\<close>
  "write_mappings s =
     write_persisted
       (\<lambda>s. s\<lparr>mappings_path :=
                 Document (save_mappings (file_path_to_vector_id s) (vector_id_to_file_path s))\<rparr>) s"

definition persist :: "sys \<Rightarrow> error + sys" where
  \<comment> \<open>the two statements that end every sync: the index, then the mapping table\<close>
  "persist s = (case write_index s of Inl e \<Rightarrow> Inl e | Inr s1 \<Rightarrow> write_mappings s1)"

definition initialize_vector_db :: "sys \<Rightarrow> sys" where
  "initialize_vector_db s =
     (case vector_db_path s of
        Some ix \<Rightarrow>
          (let (p2i, i2p) =
                 load_mappings (mappings_path s) (file_path_to_vector_id s, vector_id_to_file_path s)
           in s\<lparr>vector_db := ix, file_path_to_vector_id := p2i, vector_id_to_file_path := i2p\<rparr>)
      | None \<Rightarrow> s\<lparr>vector_db := new_index\<rparr>)"

definition register_vector :: "string \<Rightarrow> sys \<Rightarrow> sys" where
  \<comment> \<open>the four statements that follow every embedding: read \<^verbatim>\<open>ntotal\<close>, add the
      vector, set both dictionary entries\<close>
  "register_vector file_path s =
     (let vector_id = ntotal (vector_db s)
      in s\<lparr> vector_db := index_add (vector_db s),
             file_path_to_vector_id := AList.update file_path vector_id (file_path_to_vector_id s),
             vector_id_to_file_path := AList.update vector_id file_path (vector_id_to_file_path s) \<rparr>)"

fun add_chunks :: "world \<Rightarrow> string list \<Rightarrow> sys \<Rightarrow> error + sys" where
  \<comment> \<open>step 5 of \<^verbatim>\<open>sync_modified_config\<close>: the loop over \<^verbatim>\<open>updated_chunks\<close>\<close>
  "add_chunks w [] s = Inr s"
| "add_chunks w (chunk_file # rest) s =
     (case map_of (uci_config_dir s) chunk_file of
        None \<Rightarrow> Inl FileNotFoundError
      | Some content \<Rightarrow>
          if embeds w content then add_chunks w rest (register_vector (config_path chunk_file) s)
          else Inl ValueError)"

definition old_files :: "string list \<Rightarrow> dir \<Rightarrow> string list" where
  \<comment> \<open>step 1: for every package the files \<^verbatim>\<open>{pkg_name}_part*.txt\<close> of a directory\<close>
  "old_files packages d =
     concat (map (\<lambda>package. glob (replace_dots package @ ''_part'') ''.txt'' d) packages)"

definition delete_old_vectors :: "string list \<Rightarrow> sys \<Rightarrow> sys" where
  \<comment> \<open>step 2: the ids of the old chunk files are removed from the index and the
      dictionaries; \<^verbatim>\<open>-1\<close> stands for a file without an entry\<close>
  "delete_old_vectors old_config_files s =
     (let delete_vector_ids =
            filter (\<lambda>vector_id. vector_id \<noteq> - 1)
              (map (\<lambda>file. case map_of (file_path_to_vector_id s) (config_path file) of
                               None \<Rightarrow> - 1 | Some v \<Rightarrow> v) old_config_files)
      in if delete_vector_ids \<noteq> [] then
           s\<lparr> vector_db := remove_ids delete_vector_ids (vector_db s),
               file_path_to_vector_id :=
                 foldl (\<lambda>d file. AList.delete (config_path file) d)
                   (file_path_to_vector_id s) old_config_files,
               vector_id_to_file_path :=
                 foldl (\<lambda>d vector_id. AList.delete vector_id d)
                   (vector_id_to_file_path s) delete_vector_ids \<rparr>
         else s)"

fun unlink_all :: "string list \<Rightarrow> dir \<Rightarrow> error + dir" where
  "unlink_all [] d = Inr d"
| "unlink_all (name # rest) d =
     (case unlink name d of Inl e \<Rightarrow> Inl e | Inr d' \<Rightarrow> unlink_all rest d')"

fun regenerate :: "world \<Rightarrow> string list \<Rightarrow> sys \<Rightarrow> string list \<Rightarrow> error + (sys \<times> string list)" where
  \<comment> \<open>step 4: the loop over the packages, with \<^verbatim>\<open>updated_chunks\<close> as accumulator\<close>
  "regenerate w [] s updated_chunks = Inr (s, updated_chunks)"
| "regenerate w (package # rest) s updated_chunks =
     (let package_config = export_package w package
      in if package_config = [] then regenerate w rest s updated_chunks
         else
           (let temp_file = ''temp_'' @ package @ ''.txt'';
                d0 = AList.update temp_file package_config (uci_config_dir s)
            in case split_config (llm_client w) (splitter_obj s) (file_lines package_config) d0
                      (uci_annotation_dir s) of
                 Inl e \<Rightarrow> Inl e
               | Inr (self, d1, a1) \<Rightarrow>
                   (case unlink temp_file d1 of
                      Inl e \<Rightarrow> Inl e
                    | Inr d2 \<Rightarrow>
                        regenerate w rest
                          (s\<lparr>splitter_obj := self, uci_config_dir := d2, uci_annotation_dir := a1\<rparr>)
                          (updated_chunks @ glob (replace_dots package @ ''_part'') ''.txt'' d2))))"

definition sync_modified_config :: "world \<Rightarrow> string list \<Rightarrow> sys \<Rightarrow> error + (sys \<times> string list)" where
  \<comment> \<open>the packages are the elements of the set in the order of its iteration; the result
      is the state and the returned \<^verbatim>\<open>updated_chunks\<close>\<close>
  "sync_modified_config w packages s =
     (let old_config_files = old_files packages (uci_config_dir s);
          old_annotation_files = old_files packages (uci_annotation_dir s);
          s1 = delete_old_vectors old_config_files s
      in case unlink_all old_config_files (uci_config_dir s1) of
           Inl e \<Rightarrow> Inl e
         | Inr d \<Rightarrow>
             (case unlink_all old_annotation_files (uci_annotation_dir s1) of
                Inl e \<Rightarrow> Inl e
              | Inr a \<Rightarrow>
                  (case regenerate w packages (s1\<lparr>uci_config_dir := d, uci_annotation_dir := a\<rparr>) [] of
                     Inl e \<Rightarrow> Inl e
                   | Inr (s2, updated_chunks) \<Rightarrow>
                       (case add_chunks w updated_chunks s2 of
                          Inl e \<Rightarrow> Inl e
                        | Inr s3 \<Rightarrow>
                            (case persist s3 of
                               Inl e \<Rightarrow> Inl e
                             | Inr s4 \<Rightarrow> Inr (s4, updated_chunks))))))"

fun add_all_chunks :: "world \<Rightarrow> string list \<Rightarrow> sys \<Rightarrow> error + sys" where
  \<comment> \<open>the loop of \<^verbatim>\<open>sync_and_split_config\<close> over \<^verbatim>\<open>UCI_CONFIG_DIR.glob("*.txt")\<close>\<close>
  "add_all_chunks w [] s = Inr s"
| "add_all_chunks w (chunk_file # rest) s =
     (if take 10 chunk_file = ''knowledge_'' then add_all_chunks w rest s
      else
        (case map_of (uci_config_dir s) chunk_file of
           None \<Rightarrow> Inl FileNotFoundError
         | Some content \<Rightarrow>
             if embeds w content
             then add_all_chunks w rest (register_vector (config_path chunk_file) s)
             else Inl ValueError))"

definition sync_and_split_config :: "world \<Rightarrow> sys \<Rightarrow> error + sys" where
  "sync_and_split_config w s =
     (let full_config = export_all w;
          d0 = AList.update ''full_config.uci'' full_config (uci_config_dir s)
      in case split_config (llm_client w) (splitter_obj s) (file_lines full_config) d0
                (uci_annotation_dir s) of
           Inl e \<Rightarrow> Inl e
         | Inr (self, d1, a1) \<Rightarrow>
             (case add_all_chunks w (glob [] ''.txt'' d1)
                     (s\<lparr> file_path_to_vector_id := [], vector_id_to_file_path := [],
                          splitter_obj := self, uci_config_dir := d1, uci_annotation_dir := a1 \<rparr>) of
                Inl e \<Rightarrow> Inl e
              | Inr s1 \<Rightarrow> persist s1))"

text \<open>
  The update block of \<^verbatim>\<open>generate_script\<close> (lines 445 to 482). Its inputs are the
  command, the script, the retrieved context, the result of
  \<^verbatim>\<open>get_modified_packages(script)\<close> (a \<^verbatim>\<open>ValueError\<close> when the script names no
  package) and the knowledge id, the first eight hexadecimal digits of the MD5 digest of
  the command: equal commands have equal ids.
\<close>

definition knowledge_text :: "string \<Rightarrow> string \<Rightarrow> string \<Rightarrow> string" where
  \<comment> \<open>the colon after \<^verbatim>\<open>#User answer\<close> is the full-width colon, three bytes in UTF-8\<close>
  "knowledge_text command script relevant_configs =
     ''#User answer'' @ [CHR 0xEF, CHR 0xBC, CHR 0x9A] @ command @ [CHR 0x0A, CHR 0x0A]
       @ ''# scripts:'' @ [CHR 0x0A] @ script @ [CHR 0x0A, CHR 0x0A]
       @ ''# relevant configs:'' @ [CHR 0x0A] @ relevant_configs"

definition knowledge_update ::
  "world \<Rightarrow> string \<Rightarrow> string \<Rightarrow> string \<Rightarrow> error + string list \<Rightarrow> string \<Rightarrow> sys \<Rightarrow> error + sys" where
  \<comment> \<open>the body of the \<^verbatim>\<open>try\<close>\<close>
  "knowledge_update w command script relevant_configs modified_packages knowledge_id s =
     (case modified_packages of
        Inl e \<Rightarrow> Inl e
      | Inr packages \<Rightarrow>
          (case sync_modified_config w packages s of
             Inl e \<Rightarrow> Inl e
           | Inr (s1, updated_chunks) \<Rightarrow>
               (let knowledge_file = ''knowledge_'' @ knowledge_id @ ''.txt'';
                    content = knowledge_text command script relevant_configs;
                    s2 = s1\<lparr>knowledge_dir := AList.update knowledge_file content (knowledge_dir s1)\<rparr>
                in if embeds w content then
                     (case persist (register_vector (knowledge_path knowledge_file) s2) of
                        Inl e \<Rightarrow> Inl e
                      | Inr s3 \<Rightarrow>
                          Inr (s3\<lparr>uci_annotation_dir :=
                                     AList.update knowledge_file
                                       (''answer:'' @ command @ '' and the script used to solve it.'')
                                       (uci_annotation_dir s3)\<rparr>))
                   else Inl ValueError)))"

text \<open>
  What \<^verbatim>\<open>generate_script\<close> returns once the script has run on the router: the
  \<^verbatim>\<open>except Exception\<close> of the update block only logs, and the response is returned
  either way. Of the logged messages the response of the model keeps the one of that
  handler: \<open>update_failure\<close> is the exception it logged, if any.
\<close>

record response =
  resp_script :: string
  resp_execution_result :: string
  update_failure :: "error option"

definition generate_script_tail ::
  "world \<Rightarrow> string \<Rightarrow> string \<Rightarrow> string \<Rightarrow> string \<Rightarrow> error + string list \<Rightarrow> string \<Rightarrow> sys \<Rightarrow>
     error + response" where
  "generate_script_tail w command script message relevant_configs modified_packages knowledge_id s =
     Inr \<lparr> resp_script = script, resp_execution_result = message,
           update_failure =
             (case knowledge_update w command script relevant_configs modified_packages
                     knowledge_id s of
                Inl e \<Rightarrow> Some e
              | Inr s' \<Rightarrow> None) \<rparr>"


section \<open>Predicates and example data for stating the properties\<close>

definition is_last_header :: "string list \<Rightarrow> nat \<Rightarrow> bool" where
  \<comment> \<open>line \<open>i\<close> of the buffer is the config header closest to the buffer's end\<close>
  "is_last_header buf i =
     (i < length buf \<and> match_config_header (buf ! i)
        \<and> (\<forall>j. i < j \<and> j < length buf \<longrightarrow> \<not> match_config_header (buf ! j)))"

definition retained_after_split :: "nat \<Rightarrow> string list \<Rightarrow> nat \<Rightarrow> string list" where
  \<comment> \<open>in the words of the specification: the last \<open>k\<close> lines of the flushed part
      \<^verbatim>\<open>[0..i]\<close>, put in front of the retained part \<^verbatim>\<open>[i+1..end]\<close>\<close>
  "retained_after_split k buf i = drop (Suc i - k) (take (Suc i) buf) @ drop (Suc i) buf"

definition header_free :: "string list \<Rightarrow> bool" where
  "header_free ls = (\<forall>l\<in>set ls. \<not> match_config_header l)"

definition tasks_bounded :: "nat \<Rightarrow> task list \<Rightarrow> bool" where
  \<comment> \<open>every chunk written has at most \<open>N\<close> characters of content\<close>
  "tasks_bounded N ts = (\<forall>(f, c, p, n)\<in>set ts. length c \<le> N)"

definition files_from :: "dir \<Rightarrow> nat \<Rightarrow> dir \<Rightarrow> bool" where
  \<comment> \<open>every file of \<open>d\<close> is a file of \<open>d0\<close> or the parent-package line, an empty line
      and at most \<open>N\<close> characters of content\<close>
  "files_from d0 N d =
     (\<forall>(name, body)\<in>set d. (name, body) \<in> set d0
         \<or> (\<exists>p c. body = chunk_text p c \<and> length c \<le> N))"

definition shape :: "nat \<Rightarrow> nat \<Rightarrow> string list \<Rightarrow> bool" where
  \<comment> \<open>the form of the buffer between two lines: within the limit, or fewer than \<open>k\<close>
      carried lines, then lines with no header after the first, then the line just added\<close>
  "shape M k B =
     (length (concat B) \<le> M
      \<or> (\<exists>pre tail post. B = pre @ tail @ post \<and> Suc (length pre) \<le> k
            \<and> header_free (tl tail) \<and> length post \<le> 1))"

definition oversize_unit :: "string list \<Rightarrow> nat \<Rightarrow> string \<Rightarrow> bool" where
  \<comment> \<open>the text \<open>c\<close> holds a stretch of consecutive input lines with no config header
      after its first line (one section, or lines outside any section) that alone has more
      than \<open>M\<close> characters\<close>
  "oversize_unit input M c =
     (\<exists>ws. sublist ws input \<and> header_free (tl ws) \<and> M < length (concat ws)
         \<and> sublist (concat ws) c)"

definition chunk_ok :: "string list \<Rightarrow> nat \<Rightarrow> nat \<Rightarrow> string \<Rightarrow> bool" where
  \<comment> \<open>at most \<open>N\<close> characters, unless a single unit inside is over the limit \<open>M\<close>\<close>
  "chunk_ok input M N c = (length c \<le> N \<or> oversize_unit input M c)"

definition tasks_ok :: "string list \<Rightarrow> nat \<Rightarrow> nat \<Rightarrow> task list \<Rightarrow> bool" where
  "tasks_ok input M N ts = (\<forall>(f, c, p, n)\<in>set ts. chunk_ok input M N c)"

definition files_ok :: "string list \<Rightarrow> nat \<Rightarrow> nat \<Rightarrow> dir \<Rightarrow> dir \<Rightarrow> bool" where
  \<comment> \<open>every file of \<open>d\<close> is a file of \<open>d0\<close> or the parent-package line, an empty line
      and a content that is \<open>chunk_ok\<close>\<close>
  "files_ok input M N d0 d =
     (\<forall>(name, body)\<in>set d. (name, body) \<in> set d0
         \<or> (\<exists>p c. body = chunk_text p c \<and> chunk_ok input M N c))"

definition loop_inv ::
  "string list \<Rightarrow> nat \<Rightarrow> nat \<Rightarrow> nat \<Rightarrow> dir \<Rightarrow> string list \<Rightarrow> loop_state \<Rightarrow> bool" where
  \<comment> \<open>the invariant of the loop over the lines; \<open>seen\<close> are the lines read so far\<close>
  "loop_inv input M k N d0 seen st =
     (suffix (st_buffer st) seen \<and> st_size st = length (concat (st_buffer st))
        \<and> shape M k (st_buffer st) \<and> tasks_ok input M N (st_tasks st)
        \<and> files_ok input M N d0 (st_dir st)
        \<and> max_chunk_size (st_splitter st) = M \<and> overlap (st_splitter st) = k)"

definition persist_blocked :: "bool list \<Rightarrow> bool" where
  \<comment> \<open>the coming write of the index, or the write of the mapping table after it, fails\<close>
  "persist_blocked oks = (take 1 oks = [False] \<or> take 2 oks = [True, False])"

text \<open>Lines of a UCI export, and a router with the two packages network and wireless.\<close>

definition package_line :: "string \<Rightarrow> string" where
  "package_line p = ''package '' @ p @ [CHR 0x0A]"

definition header_line :: "string \<Rightarrow> string \<Rightarrow> string" where
  "header_line t n = ''config '' @ t @ '' '' @ [CHR 0x27] @ n @ [CHR 0x27, CHR 0x0A]"

definition option_line :: "string \<Rightarrow> string \<Rightarrow> string" where
  "option_line k v =
     [CHR 0x09] @ ''option '' @ k @ '' '' @ [CHR 0x27] @ v @ [CHR 0x27, CHR 0x0A]"

definition example_units :: "string list" where
  \<comment> \<open>one package with three sections of 27 characters each\<close>
  "example_units =
     [package_line ''p'', header_line ''a'' ''b'', option_line ''x'' ''1'',
      header_line ''c'' ''d'', option_line ''x'' ''2'',
      header_line ''e'' ''f'', option_line ''x'' ''3'']"

definition network_config :: string where
  "network_config =
     package_line ''network'' @ [CHR 0x0A] @ header_line ''interface'' ''lan''
       @ option_line ''proto'' ''static''"

definition wireless_config :: string where
  "wireless_config =
     package_line ''wireless'' @ [CHR 0x0A] @ header_line ''wifi-device'' ''radio0''
       @ option_line ''channel'' ''11''"

definition example_router :: world where
  \<comment> \<open>the summarizer is unreachable, the embedding model works\<close>
  "example_router =
     \<lparr> export_package =
         (\<lambda>p. if p = ''network'' then network_config
              else if p = ''wireless'' then wireless_config else []),
       export_all = network_config @ wireless_config,
       llm_client = (\<lambda>prompt. LlmError),
       embeds = (\<lambda>t. True) \<rparr>"

definition fresh_splitter :: "nat \<Rightarrow> nat \<Rightarrow> splitter" where
  \<comment> \<open>\<^verbatim>\<open>UCISplitter(max_chunk_size=m, overlap=k)\<close>\<close>
  "fresh_splitter m k = \<lparr> max_chunk_size = m, overlap = k, last_buffer_hash = None \<rparr>"

definition start_state :: sys where
  \<comment> \<open>the module as loaded on a machine without persisted files:
      \<^verbatim>\<open>UCISplitter(max_chunk_size=500, overlap=20)\<close> and an empty trained index\<close>
  "start_state =
     \<lparr> splitter_obj = fresh_splitter 500 20,
       uci_config_dir = [], uci_annotation_dir = [], knowledge_dir = [],
       vector_db = new_index, file_path_to_vector_id = [], vector_id_to_file_path = [],
       vector_db_path = None, mappings_path = NoFile, disk_ok = [] \<rparr>"

definition mapping_view ::
  "sys \<Rightarrow> string list \<times> (string \<times> int) list \<times> (int \<times> string) list \<times> faiss_index" where
  \<comment> \<open>what the claims on the mapping table look at: the names in \<^verbatim>\<open>uci_configs\<close>,
      the two dictionaries and the index\<close>
  "mapping_view s =
     (map fst (uci_config_dir s), file_path_to_vector_id s, vector_id_to_file_path s, vector_db s)"


text \<open>Sequences of operations on the state, and the states of one overflow split.\<close>

definition and_then :: "error + sys \<Rightarrow> (sys \<Rightarrow> error + sys) \<Rightarrow> error + sys" where
  \<comment> \<open>the next operation runs on the state the previous one returned\<close>
  "and_then r f = (case r of Inl e \<Rightarrow> Inl e | Inr s \<Rightarrow> f s)"

definition module_sync :: "world \<Rightarrow> string list \<Rightarrow> sys \<Rightarrow> error + sys" where
  \<comment> \<open>\<^verbatim>\<open>sync_modified_config\<close>, keeping the state only\<close>
  "module_sync w packages s =
     (case sync_modified_config w packages s of Inl e \<Rightarrow> Inl e | Inr (s', chunks) \<Rightarrow> Inr s')"

definition mutually_inverse :: "(string \<times> int) list \<Rightarrow> (int \<times> string) list \<Rightarrow> bool" where
  \<comment> \<open>every entry of either dictionary is mirrored in the other\<close>
  "mutually_inverse p2i i2p =
     (list_all (\<lambda>(p, v). map_of i2p v = Some p) p2i
        \<and> list_all (\<lambda>(v, p). map_of p2i p = Some v) i2p)"

definition split_before :: "nat \<Rightarrow> loop_state" where
  \<comment> \<open>the loop after the first three lines of \<open>example_units\<close>, for a limit of 40
      characters and an overlap of \<open>k\<close> lines\<close>
  "split_before k =
     \<lparr> st_package = Some ''p'', st_buffer = take 3 example_units, st_size = 37, st_tasks = [],
       st_splitter = fresh_splitter 40 k, st_dir = [] \<rparr>"

definition split_after :: loop_state where
  \<comment> \<open>the loop after the fourth line, for an overlap of one line\<close>
  "split_after =
     \<lparr> st_package = Some ''p'',
       st_buffer = [example_units ! 1, example_units ! 2, example_units ! 3],
       st_size = 40,
       st_tasks = [(''p_part1.txt'', concat (take 2 example_units), ''p'', 1)],
       st_splitter =
         \<lparr> max_chunk_size = 40, overlap = 1,
           last_buffer_hash = Some (concat (take 2 example_units)) \<rparr>,
       st_dir = [(''p_part1.txt'', chunk_text ''p'' (concat (take 2 example_units)))] \<rparr>"


section \<open>Properties\<close>

subsection \<open>Round trip of the mapping table\<close>

lemma digit_val_digit_char: "d < 10 \<Longrightarrow> digit_val (digit_char d) = Some d"
proof -
  assume "d < 10"
  then consider "d = 0" | "d = 1" | "d = 2" | "d = 3" | "d = 4" | "d = 5" | "d = 6"
    | "d = 7" | "d = 8" | "d = 9" by atomize_elim presburger
  then show ?thesis
    by cases (simp_all add: digit_val_def digit_char_def)
qed

lemma nat_of_digits_append:
  "nat_of_digits acc (xs @ ys) =
     (case nat_of_digits acc xs of None \<Rightarrow> None | Some a \<Rightarrow> nat_of_digits a ys)"
  by (induction xs arbitrary: acc) (auto split: option.splits)

lemma nat_of_digits_str_of_nat: "nat_of_digits 0 (str_of_nat n) = Some n"
proof (induction n rule: str_of_nat.induct)
  case (1 n)
  show ?case
  proof (cases "n < 10")
    case True
    then show ?thesis
      by (subst str_of_nat.simps) (simp add: digit_val_digit_char)
  next
    case False
    then have ih: "nat_of_digits 0 (str_of_nat (n div 10)) = Some (n div 10)"
      using 1 by simp
    have "n mod 10 < 10" by simp
    then have d: "digit_val (digit_char (n mod 10)) = Some (n mod 10)"
      by (rule digit_val_digit_char)
    show ?thesis
      using False by (subst str_of_nat.simps) (simp add: nat_of_digits_append ih d)
  qed
qed

lemma str_of_nat_digits: "c \<in> set (str_of_nat n) \<Longrightarrow> digit_val c \<noteq> None"
proof (induction n rule: str_of_nat.induct)
  case (1 n)
  show ?case
  proof (cases "n < 10")
    case True
    with 1(2) have "c = digit_char n" by (subst (asm) str_of_nat.simps) simp
    with True show ?thesis by (simp add: digit_val_digit_char)
  next
    case False
    with 1(2) have "c \<in> set (str_of_nat (n div 10)) \<or> c = digit_char (n mod 10)"
      by (subst (asm) str_of_nat.simps) auto
    then show ?thesis
    proof
      assume "c \<in> set (str_of_nat (n div 10))"
      with 1(1) False show ?thesis by simp
    next
      assume "c = digit_char (n mod 10)"
      moreover have "n mod 10 < 10" by simp
      ultimately show ?thesis by (simp add: digit_val_digit_char)
    qed
  qed
qed

lemma str_of_nat_nonempty: "str_of_nat n \<noteq> []"
  by (subst str_of_nat.simps) simp

lemma int_of_str_str_of_nat: "int_of_str (str_of_nat n) = Some (int n)"
proof -
  obtain c cs where s: "str_of_nat n = c # cs"
    using str_of_nat_nonempty by (cases "str_of_nat n") auto
  then have "digit_val c \<noteq> None"
    using str_of_nat_digits [of c n] by simp
  then have "c \<noteq> CHR ''-''" "c \<noteq> CHR ''+''"
    by (auto simp: digit_val_def)
  moreover have "nat_of_digits 0 (c # cs) = Some n"
    using nat_of_digits_str_of_nat [of n] s by simp
  ultimately show ?thesis
    unfolding int_of_str_def s by simp
qed

lemma int_of_str_str_of_int: "int_of_str (str_of_int k) = Some k"
proof (cases "k < 0")
  case True
  then show ?thesis
    by (simp add: str_of_int_def int_of_str_def str_of_nat_nonempty nat_of_digits_str_of_nat)
next
  case False
  then show ?thesis
    by (simp add: str_of_int_def int_of_str_str_of_nat)
qed

lemma str_of_int_inj: "inj str_of_int"
  by (rule inj_on_inverseI [where g = "\<lambda>s. the (int_of_str s)"]) (simp add: int_of_str_str_of_int)

lemma update_fresh: "k \<notin> fst ` set al \<Longrightarrow> AList.update k v al = al @ [(k, v)]"
  by (induction al) auto

lemma foldl_update_distinct:
  "distinct (map fst (acc @ kvs)) \<Longrightarrow>
     foldl (\<lambda>d (k, v). AList.update k v d) acc kvs = acc @ kvs"
proof (induction kvs arbitrary: acc)
  case Nil
  then show ?case by simp
next
  case (Cons kv kvs)
  obtain k v where kv: "kv = (k, v)" by (cases kv)
  from Cons.prems kv have fresh: "k \<notin> fst ` set acc" by auto
  from Cons.prems kv have "distinct (map fst ((acc @ [(k, v)]) @ kvs))" by simp
  from Cons.IH [OF this] show ?case
    by (simp add: kv update_fresh [OF fresh])
qed

lemma dict_of_distinct: "distinct (map fst kvs) \<Longrightarrow> dict_of kvs = kvs"
  using foldl_update_distinct [of "[]" kvs] by (simp add: dict_of_def)

lemma int_keys_str: "int_keys (map (\<lambda>(k, v). (str_of_int k, v)) kvs) = Some kvs"
  by (induction kvs) (auto simp: int_of_str_str_of_int)

lemma distinct_str_keys:
  "distinct (map fst kvs) \<Longrightarrow> distinct (map fst (map (\<lambda>(k, v). (str_of_int k, v)) kvs))"
proof -
  assume d: "distinct (map fst kvs)"
  have "map fst (map (\<lambda>(k, v). (str_of_int k, v)) kvs) = map str_of_int (map fst kvs)"
    by (induction kvs) auto
  then show ?thesis
    using d str_of_int_inj by (simp add: distinct_map inj_on_def)
qed

text \<open>
  C10: for dictionaries with integer ids, \<^verbatim>\<open>save_mappings\<close> followed by
  \<^verbatim>\<open>load_mappings\<close> on the saved document gives back both dictionaries exactly,
  whatever the globals held before the load.
\<close>

theorem mappings_roundtrip:
  assumes "distinct (map fst p2i)" and "distinct (map fst i2p)"
  shows "load_mappings (Document (save_mappings p2i i2p)) old = (p2i, i2p)"
proof -
  have a: "map (\<lambda>(k, v). (k, v)) p2i = p2i" by (induction p2i) auto
  have f: "file_to_id (save_mappings p2i i2p) = p2i"
    using assms(1) by (simp add: save_mappings_def a dict_of_distinct)
  have g: "id_to_file (save_mappings p2i i2p) = map (\<lambda>(k, v). (str_of_int k, v)) i2p"
    using dict_of_distinct [OF distinct_str_keys [OF assms(2)]] by (simp add: save_mappings_def)
  show ?thesis
    using assms by (simp add: load_mappings_def f g int_keys_str a dict_of_distinct)
qed

theorem mappings_roundtrip_witness:
  "load_mappings (Document (save_mappings [(''uci_configs/network_part1.txt'', 0), (''uci_configs/dhcp_part1.txt'', 12)]
       [(0, ''uci_configs/network_part1.txt''), (12, ''uci_configs/dhcp_part1.txt'')])) ([], [])
   = ([(''uci_configs/network_part1.txt'', 0), (''uci_configs/dhcp_part1.txt'', 12)],
       [(0, ''uci_configs/network_part1.txt''), (12, ''uci_configs/dhcp_part1.txt'')])"
  using mappings_roundtrip [of "[(''uci_configs/network_part1.txt'', 0), (''uci_configs/dhcp_part1.txt'', 12)]"
     "[(0, ''uci_configs/network_part1.txt''), (12, ''uci_configs/dhcp_part1.txt'')]" "([], [])"]
  by simp

subsection \<open>Retriever and annotation generator\<close>

lemma retrieve_loop_resolved:
  "\<forall>v\<in>set indices. \<not> unreadable i2p fs v \<Longrightarrow>
     retrieve_loop i2p fs indices acc = Inr (acc @ List.map_filter (resolve i2p fs) indices)"
proof (induction indices arbitrary: acc)
  case Nil
  then show ?case by (simp add: List.map_filter_simps)
next
  case (Cons v vs)
  then have ih: "\<And>acc. retrieve_loop i2p fs vs acc = Inr (acc @ List.map_filter (resolve i2p fs) vs)"
    by simp
  from Cons.prems have nu: "\<not> unreadable i2p fs v" by simp
  show ?case
    using nu
    by (auto simp: ih List.map_filter_simps resolve_def [of i2p fs v] unreadable_def
        split: option.splits read_result.splits)
qed

lemma map_filter_none: "\<forall>v\<in>set xs. f v = None \<Longrightarrow> List.map_filter f xs = []"
  by (induction xs) (simp_all add: List.map_filter_simps)

text \<open>
  C8: the retriever skips every returned id that has no mapping entry or whose file is
  missing and goes on with the remaining ids; its result is the texts of the ids that
  resolve, in the order of the search, joined by blank lines. When no id resolves the
  result is the empty string, not an error. (A read that fails otherwise than by a
  missing file is outside the claim and is excluded by the hypothesis.)
\<close>

theorem retrieve_skips_unresolved:
  assumes "\<forall>v\<in>set indices. \<not> unreadable i2p fs v"
  shows "retrieve_relevant_chunks i2p fs (Inr indices)
           = Inr (join [CHR 0x0A, CHR 0x0A] (List.map_filter (resolve i2p fs) indices))
         \<and> ((\<forall>v\<in>set indices. resolve i2p fs v = None) \<longrightarrow>
              retrieve_relevant_chunks i2p fs (Inr indices) = Inr [])"
  using retrieve_loop_resolved [OF assms, of "[]"]
  by (simp add: retrieve_relevant_chunks_def map_filter_none)

theorem retrieve_skips_unresolved_witness:
  "retrieve_relevant_chunks [(0, ''a.txt''), (2, ''b.txt'')]
      (\<lambda>p. if p = ''b.txt'' then Content ''wifi'' else Missing) (Inr [0, 7, -1, 2])
     = Inr ''wifi''
   \<and> retrieve_relevant_chunks [(0, ''a.txt''), (2, ''b.txt'')]
      (\<lambda>p. if p = ''b.txt'' then Content ''wifi'' else Missing) (Inr [0, 7, -1])
     = Inr ''''"
  using retrieve_skips_unresolved [of "[0, 7, -1, 2]" "[(0, ''a.txt''), (2, ''b.txt'')]"
      "\<lambda>p. if p = ''b.txt'' then Content ''wifi'' else Missing"]
    retrieve_skips_unresolved [of "[0, 7, -1]" "[(0, ''a.txt''), (2, ''b.txt'')]"
      "\<lambda>p. if p = ''b.txt'' then Content ''wifi'' else Missing"]
  by (simp add: unreadable_def resolve_def List.map_filter_simps)

text \<open>
  C9: \<^verbatim>\<open>generate_annotation\<close> returns a string in every case; whenever the
  summarizer yields no usable reply (an exception, or a reply without content) the result
  is the fixed sentence built from the chunk number and the package name only.
\<close>

theorem generate_annotation_fallback:
  assumes "\<forall>r. client (annotation_prompt buffer_content current_package chunk_num) \<noteq> Reply r"
  shows "generate_annotation client buffer_content current_package chunk_num
           = ''This is the '' @ str_of_nat chunk_num @ ''th chunk file of the ''
               @ current_package @ '' package.''"
  using assms
  by (simp add: generate_annotation_def fallback_annotation_def split: llm_reply.splits)

theorem generate_annotation_fallback_witness:
  "generate_annotation (\<lambda>prompt. LlmError) ''config interface lan'' ''network'' 3
     = ''This is the 3th chunk file of the network package.''"
  using generate_annotation_fallback [of "\<lambda>prompt. LlmError" "''config interface lan''" "''network''" 3]
  by (simp add: str_of_nat.simps digit_char_def)

subsection \<open>The overflow split of the chunker\<close>

lemma find_first_Some:
  "find_first P xs = Some i \<Longrightarrow> i < length xs \<and> P (xs ! i) \<and> (\<forall>j<i. \<not> P (xs ! j))"
proof (induction xs arbitrary: i)
  case Nil
  then show ?case by simp
next
  case (Cons x xs)
  show ?case
  proof (cases "P x")
    case True
    with Cons.prems show ?thesis by simp
  next
    case False
    with Cons.prems obtain k where k: "find_first P xs = Some k" "i = Suc k"
      by auto
    from Cons.IH [OF k(1)] have "k < length xs" "P (xs ! k)" "\<forall>j<k. \<not> P (xs ! j)"
      by auto
    with False k(2) show ?thesis
      by (auto simp: nth_Cons split: nat.splits)
  qed
qed

lemma find_first_None: "find_first P xs = None \<longleftrightarrow> (\<forall>x\<in>set xs. \<not> P x)"
  by (induction xs) auto

lemma last_config_pos_Some:
  assumes "last_config_pos buf = Some i"
  shows "is_last_header buf i"
proof -
  from assms obtain k where k: "find_first match_config_header (rev buf) = Some k"
    and i: "i = length buf - k - 1"
    by (auto simp: last_config_pos_def)
  from find_first_Some [OF k] have kl: "k < length buf"
    and pk: "match_config_header (rev buf ! k)"
    and nk: "\<forall>j<k. \<not> match_config_header (rev buf ! j)"
    by auto
  from kl pk i have a: "i < length buf" "match_config_header (buf ! i)"
    by (auto simp: rev_nth)
  have "\<not> match_config_header (buf ! j)" if "i < j" "j < length buf" for j
  proof -
    from that i kl have "length buf - Suc j < k" by linarith
    with nk have "\<not> match_config_header (rev buf ! (length buf - Suc j))" by blast
    moreover from that have "rev buf ! (length buf - Suc j) = buf ! j"
      by (simp add: rev_nth)
    ultimately show ?thesis by simp
  qed
  with a show ?thesis by (simp add: is_last_header_def)
qed

lemma last_config_pos_None:
  "last_config_pos buf = None \<longleftrightarrow> (\<forall>l\<in>set buf. \<not> match_config_header l)"
  by (simp add: last_config_pos_def find_first_None)

lemma flush_buffer_fields:
  "flush_buffer self d buf pkg = Inr (self', d', t) \<Longrightarrow>
     max_chunk_size self' = max_chunk_size self \<and> overlap self' = overlap self"
  by (auto simp: flush_buffer_def Let_def split: if_splits option.splits)

lemma last_lines_pos: "0 < k \<Longrightarrow> last_lines k xs = drop (length xs - k) xs"
  by (simp add: last_lines_def)

lemma flush_buffer_writes:
  "flush_buffer self d buf pkg =
     (if buf = [] \<or> last_buffer_hash self = Some (concat buf) then Inr (self, d, None)
      else case pkg of
             None \<Rightarrow> Inl AttributeError
           | Some p \<Rightarrow>
               Inr (self\<lparr>last_buffer_hash := Some (concat buf)\<rparr>,
                    AList.update
                      (replace_dots p @ ''_part''
                         @ str_of_nat (Suc (length (glob (replace_dots p @ ''_'') ''.txt'' d))) @ ''.txt'')
                      (chunk_text p (concat buf)) d,
                    Some (replace_dots p @ ''_part''
                            @ str_of_nat (Suc (length (glob (replace_dots p @ ''_'') ''.txt'' d))) @ ''.txt'',
                          concat buf, p, Suc (length (glob (replace_dots p @ ''_'') ''.txt'' d)))))"
  by (auto simp: flush_buffer_def md5_hexdigest_def Let_def split: option.splits)

text \<open>
  The overflow split for an overlap of at least one line: when a line that is not a
  package declaration would carry the buffer over \<^verbatim>\<open>max_chunk_size\<close>, the buffer
  is cut behind the config header closest to its end. The part up to and including that
  header is handed to \<^verbatim>\<open>_flush_buffer\<close> (\<open>flush_buffer_writes\<close> says what that
  writes), and the new buffer is the last \<open>overlap\<close> lines of that part, then the rest
  of the old buffer, then the new line. With no header in the buffer the whole buffer is
  handed to \<^verbatim>\<open>_flush_buffer\<close> and the new buffer is the new line alone.
\<close>

theorem overflow_split:
  assumes "match_package line = None"
    and "max_chunk_size (st_splitter st) < st_size st + length line"
    and "0 < overlap (st_splitter st)"
    and "split_line st line = Inr st'"
  shows "(\<exists>i t. is_last_header (st_buffer st) i
            \<and> flush_buffer (st_splitter st) (st_dir st) (take (Suc i) (st_buffer st)) (st_package st)
                = Inr (st_splitter st', st_dir st', t)
            \<and> st_tasks st' = add_task t (st_tasks st)
            \<and> st_buffer st'
                = retained_after_split (overlap (st_splitter st)) (st_buffer st) i @ [line])
       \<or> ((\<forall>l\<in>set (st_buffer st). \<not> match_config_header l)
            \<and> (\<exists>t. flush_buffer (st_splitter st) (st_dir st) (st_buffer st) (st_package st)
                      = Inr (st_splitter st', st_dir st', t)
                  \<and> st_tasks st' = add_task t (st_tasks st))
            \<and> st_buffer st' = [line])"
proof -
  from assms(1) have p: "on_package st line = Inr st" by (simp add: on_package_def)
  from assms(2,4) p obtain st2 where o: "on_overflow st = Inr st2"
    and st': "st' = st2\<lparr>st_buffer := st_buffer st2 @ [line], st_size := st_size st2 + length line\<rparr>"
    by (auto simp: split_line_def split: sum.splits)
  show ?thesis
  proof (cases "last_config_pos (st_buffer st)")
    case None
    then have nh: "\<forall>l\<in>set (st_buffer st). \<not> match_config_header l"
      by (simp add: last_config_pos_None)
    from o None obtain self d t where
      f: "flush_buffer (st_splitter st) (st_dir st) (st_buffer st) (st_package st) = Inr (self, d, t)"
      and st2: "st2 = st\<lparr>st_buffer := [], st_size := 0, st_tasks := add_task t (st_tasks st),
                          st_splitter := self, st_dir := d\<rparr>"
      by (auto simp: on_overflow_def split: sum.splits)
    from f st2 st' nh show ?thesis by simp
  next
    case (Some i)
    then have lh: "is_last_header (st_buffer st) i" by (rule last_config_pos_Some)
    from o Some obtain self d t where
      f: "flush_buffer (st_splitter st) (st_dir st) (take (Suc i) (st_buffer st)) (st_package st)
            = Inr (self, d, t)"
      and st2: "st2 = st\<lparr>st_buffer := last_lines (overlap self) (take (Suc i) (st_buffer st))
                                          @ drop (Suc i) (st_buffer st),
                          st_size := sum_list (map length (last_lines (overlap self) (take (Suc i) (st_buffer st))
                                          @ drop (Suc i) (st_buffer st))),
                          st_tasks := add_task t (st_tasks st), st_splitter := self, st_dir := d\<rparr>"
      by (auto simp: on_overflow_def Let_def split: sum.splits)
    from flush_buffer_fields [OF f] have ov: "overlap self = overlap (st_splitter st)" by simp
    from lh have il: "Suc i \<le> length (st_buffer st)" by (simp add: is_last_header_def)
    then have len: "length (take (Suc i) (st_buffer st)) = Suc i" by simp
    have ll: "last_lines (overlap self) (take (Suc i) (st_buffer st))
                = drop (Suc i - overlap (st_splitter st)) (take (Suc i) (st_buffer st))"
      using assms(3) ov len by (simp add: last_lines_pos del: take_Suc length_take)
    from f st2 st' lh ll show ?thesis by (auto simp: retained_after_split_def)
  qed
qed

text \<open>
  A package declaration is never split: the buffer has been flushed before the size is
  tested, so the new buffer is the declaration alone.
\<close>

lemma package_line_split:
  assumes "match_package line = Some name" and "split_line st line = Inr st'"
  shows "st_buffer st' = [line] \<and> st_package st' = Some name"
proof -
  from assms obtain st1 where p: "on_package st line = Inr st1"
    by (auto simp: split_line_def split: sum.splits)
  from p assms(1) have b1: "st_buffer st1 = []" and p1: "st_package st1 = Some name"
    by (auto simp: on_package_def split: if_splits sum.splits)
  have o: "on_overflow st1 = Inr (st1\<lparr>st_buffer := [], st_size := 0\<rparr>)"
    using b1 by (simp add: on_overflow_def last_config_pos_def flush_buffer_def add_task_def)
  from assms(2) p o b1 p1 show ?thesis
    by (auto simp: split_line_def split: if_splits)
qed

text \<open>An instance: limit 40, overlap 1, the fourth line of \<open>example_units\<close>.\<close>

lemma header_free_units_bound:
  "\<forall>ws. sublist ws example_units \<and> header_free (tl ws) \<longrightarrow> length (concat ws) \<le> 40"
proof -
  have "list_all (\<lambda>ws. header_free (tl ws) \<longrightarrow> length (concat ws) \<le> 40) (sublists example_units)"
    by code_simp
  then show ?thesis
    by (auto simp: list_all_iff)
qed

lemma units_line_bound: "\<forall>l\<in>set example_units. length l \<le> 14"
  by code_simp

theorem overflow_split_example:
  "\<exists>i. is_last_header (st_buffer (split_before 1)) i
       \<and> st_buffer split_after
           = retained_after_split 1 (st_buffer (split_before 1)) i @ [example_units ! 3]"
proof -
  have h1: "match_package (example_units ! 3) = None" by code_simp
  have h2: "max_chunk_size (st_splitter (split_before 1))
              < st_size (split_before 1) + length (example_units ! 3)" by code_simp
  have h3: "0 < overlap (st_splitter (split_before 1))" by code_simp
  have h4: "split_line (split_before 1) (example_units ! 3) = Inr split_after" by code_simp
  have ne: "st_buffer split_after \<noteq> [example_units ! 3]" by code_simp
  have ov: "overlap (st_splitter (split_before 1)) = 1" by code_simp
  from overflow_split [OF h1 h2 h3 h4] ne ov show ?thesis by auto
qed

text \<open>
  A cut whose flushed part has the text of the chunk written last writes nothing: for a
  limit of 40 and an overlap of 20 the buffer holds a header at position 1, the line
  overflows, and neither a task nor a file is added.
\<close>

theorem repeated_part_not_rewritten:
  "(case split_lines \<lparr>st_package = None, st_buffer = [], st_size = 0, st_tasks = [],
                        st_splitter = fresh_splitter 40 20, st_dir = []\<rparr>
           [example_units ! 0, example_units ! 1, example_units ! 2, example_units ! 4] of
      Inl e \<Rightarrow> False
    | Inr st \<Rightarrow>
        last_config_pos (st_buffer st) = Some 1
        \<and> max_chunk_size (st_splitter st) < st_size st + length (example_units ! 6)
        \<and> (case split_line st (example_units ! 6) of
              Inl e \<Rightarrow> False
            | Inr st' \<Rightarrow> st_tasks st' = st_tasks st \<and> st_dir st' = st_dir st
                           \<and> length (st_tasks st') = 1))"
  by code_simp

text \<open>
  C4: with an overlap of 0 the slice \<^verbatim>\<open>chunk_part1[-self.overlap:]\<close> is
  \<^verbatim>\<open>chunk_part1[0:]\<close>, the whole flushed part. For a limit of 40 characters the
  first three lines of \<open>example_units\<close> fill the buffer to 37 characters; the fourth
  line overflows it, the header closest to the end is line 1, and lines 0 and 1 are written
  as a chunk. The new buffer is then all four lines, where the last 0 lines of the flushed
  part in front of the retained part and the new line are lines 2 and 3 only.
\<close>

theorem overlap_zero_keeps_flushed_part:
  "split_lines \<lparr>st_package = None, st_buffer = [], st_size = 0, st_tasks = [],
                 st_splitter = fresh_splitter 40 0, st_dir = []\<rparr> (take 3 example_units)
     = Inr (split_before 0)
   \<and> last_config_pos (st_buffer (split_before 0)) = Some 1
   \<and> max_chunk_size (st_splitter (split_before 0))
       < st_size (split_before 0) + length (example_units ! 3)
   \<and> map_sum id (\<lambda>st. (map (\<lambda>(f, c, p, n). c) (st_tasks st), st_buffer st))
        (split_line (split_before 0) (example_units ! 3))
       = Inr ([concat (take 2 example_units)], take 4 example_units)
   \<and> retained_after_split 0 (st_buffer (split_before 0)) 1 @ [example_units ! 3]
       = [example_units ! 2, example_units ! 3]"
  by code_simp

subsection \<open>The size of the chunks\<close>

lemma length_concat_le: "\<forall>l\<in>set xs. length l \<le> L \<Longrightarrow> length (concat xs) \<le> length xs * L"
  by (induction xs) auto

lemma drop_take_drop: "n \<le> m \<Longrightarrow> drop n (take m xs) @ drop m xs = drop n xs"
proof -
  assume nm: "n \<le> m"
  show ?thesis
  proof (cases "m \<le> length xs")
    case True
    have "drop n xs = drop n (take m xs @ drop m xs)" by simp
    also have "\<dots> = drop n (take m xs) @ drop (n - length (take m xs)) (drop m xs)"
      by (rule drop_append)
    also have "n - length (take m xs) = 0" using True nm by simp
    finally show ?thesis by simp
  next
    case False
    then show ?thesis by simp
  qed
qed

lemma set_update_subset: "set (AList.update k v al) \<subseteq> insert (k, v) (set al)"
  by (induction al) auto

lemma flush_buffer_result:
  assumes "flush_buffer self d buf pkg = Inr (self', d', t)"
  shows "max_chunk_size self' = max_chunk_size self \<and> overlap self' = overlap self
         \<and> (case t of None \<Rightarrow> d' = d
             | Some (f, c, p, n) \<Rightarrow> c = concat buf \<and> d' = AList.update f (chunk_text p c) d)"
  using assms by (auto simp: flush_buffer_def Let_def split: if_splits option.splits)

lemma concat_take_le: "length (concat (take n B)) \<le> length (concat B)"
proof -
  have "concat B = concat (take n B) @ concat (drop n B)"
    by (metis append_take_drop_id concat_append)
  then show ?thesis by simp
qed

lemma flush_keeps:
  assumes f: "flush_buffer self d buf pkg = Inr (self', d', t)"
    and ok: "chunk_ok input M N (concat buf)"
    and tb: "tasks_ok input M N ts" and ff: "files_ok input M N d0 d"
  shows "tasks_ok input M N (add_task t ts) \<and> files_ok input M N d0 d'
         \<and> max_chunk_size self' = max_chunk_size self \<and> overlap self' = overlap self"
proof (cases t)
  case None
  with flush_buffer_result [OF f] tb ff show ?thesis by (simp add: add_task_def)
next
  case (Some x)
  obtain fn c p n where x: "x = (fn, c, p, n)" by (cases x)
  from flush_buffer_result [OF f] Some x
  have c: "c = concat buf" and d': "d' = AList.update fn (chunk_text p c) d"
    and m: "max_chunk_size self' = max_chunk_size self" "overlap self' = overlap self"
    by auto
  from tb c ok Some x have 1: "tasks_ok input M N (add_task t ts)"
    by (auto simp: tasks_ok_def add_task_def)
  have 2: "files_ok input M N d0 d'"
  proof -
    have "(name, body) \<in> set d0 \<or> (\<exists>p c. body = chunk_text p c \<and> chunk_ok input M N c)"
      if "(name, body) \<in> set d'" for name body
    proof -
      from that d' set_update_subset [of fn "chunk_text p c" d]
      have "(name, body) = (fn, chunk_text p c) \<or> (name, body) \<in> set d" by auto
      then show ?thesis
      proof
        assume "(name, body) = (fn, chunk_text p c)"
        with c ok show ?thesis by auto
      next
        assume "(name, body) \<in> set d"
        with ff show ?thesis by (auto simp: files_ok_def)
      qed
    qed
    then show ?thesis by (auto simp: files_ok_def)
  qed
  from 1 2 m show ?thesis by simp
qed

lemma sublist_concat_mid: "sublist (concat tail) (concat (pre @ tail @ post))"
  by (simp add: sublist_appendI)

lemma shape_cases:
  assumes sh: "shape M k B" and sub: "sublist B input"
    and L: "\<forall>l\<in>set input. length l \<le> L"
  obtains "length (concat B) \<le> M + k * L"
  | pre tail post where "B = pre @ tail @ post" "Suc (length pre) \<le> k" "header_free (tl tail)"
      "length post \<le> 1" "M < length (concat tail)" "sublist tail input"
proof -
  from sh consider "length (concat B) \<le> M"
    | pre tail post where "B = pre @ tail @ post" "Suc (length pre) \<le> k"
        "header_free (tl tail)" "length post \<le> 1"
    by (auto simp: shape_def)
  then show ?thesis
  proof cases
    case 1
    then have "length (concat B) \<le> M + k * L" by simp
    then show ?thesis by (rule that(1))
  next
    case 2
    have "sublist tail B" unfolding 2(1) by (rule sublist_appendI)
    from this sub have st: "sublist tail input" by (rule sublist_order.order_trans)
    show ?thesis
    proof (cases "M < length (concat tail)")
      case True
      from 2 True st show ?thesis by (rule that(2))
    next
      case False
      then have c: "length (concat tail) \<le> M" by simp
      from sub have "set B \<subseteq> set input" by (rule set_mono_sublist)
      with L 2(1) have lp: "\<forall>l\<in>set pre. length l \<le> L" and lq: "\<forall>l\<in>set post. length l \<le> L"
        by auto
      from length_concat_le [OF lp] have a: "length (concat pre) \<le> length pre * L" .
      from length_concat_le [OF lq] 2(4) have b: "length (concat post) \<le> 1 * L"
        by (meson le_trans mult_le_mono1)
      from 2(2) have "Suc (length pre) * L \<le> k * L" by (rule mult_le_mono1)
      then have "length pre * L + 1 * L \<le> k * L" by simp
      with a b have "length (concat pre) + length (concat post) \<le> k * L" by linarith
      with c have "length (concat B) \<le> M + k * L" unfolding 2(1) by simp
      then show ?thesis by (rule that(1))
    qed
  qed
qed

lemma shape_ok:
  assumes sh: "shape M k B" and sub: "sublist B input"
    and L: "\<forall>l\<in>set input. length l \<le> L"
  shows "chunk_ok input M (M + k * L) (concat B)"
using sh sub L proof (cases rule: shape_cases)
  case 1
  then show ?thesis by (simp add: chunk_ok_def)
next
  case (2 pre tail post)
  have "sublist (concat tail) (concat B)" unfolding 2(1) by (rule sublist_concat_mid)
  with 2 show ?thesis unfolding chunk_ok_def oversize_unit_def by blast
qed

lemma part1_ok:
  assumes sh: "shape M k B" and sub: "sublist B input"
    and L: "\<forall>l\<in>set input. length l \<le> L"
    and lh: "is_last_header B i"
  shows "chunk_ok input M (M + k * L) (concat (take (Suc i) B))"
using sh sub L proof (cases rule: shape_cases)
  case 1
  with concat_take_le [of "Suc i" B] show ?thesis by (simp add: chunk_ok_def)
next
  case (2 pre tail post)
  from lh have il: "i < length B" and hi: "match_config_header (B ! i)"
    by (simp_all add: is_last_header_def)
  consider "i \<le> length pre" | "length pre < i" "i < length pre + length tail"
    | "length pre + length tail \<le> i" by linarith
  then show ?thesis
  proof cases
    case 1
    from sub have "set B \<subseteq> set input" by (rule set_mono_sublist)
    moreover have "set (take (Suc i) B) \<subseteq> set B" by (rule set_take_subset)
    ultimately have "\<forall>l\<in>set (take (Suc i) B). length l \<le> L" using L by blast
    from length_concat_le [OF this]
    have "length (concat (take (Suc i) B)) \<le> length (take (Suc i) B) * L" .
    also have "length (take (Suc i) B) \<le> k" using 1 2(2) by simp
    finally have "length (concat (take (Suc i) B)) \<le> k * L" by (simp add: mult_le_mono1)
    then show ?thesis by (simp add: chunk_ok_def)
  next
    case 2
    note b = 2
    from b have lt: "i - length pre < length tail" and nb: "\<not> i < length pre"
      by linarith+
    then have "B ! i = tail ! (i - length pre)"
      unfolding \<open>B = pre @ tail @ post\<close> by (simp add: nth_append)
    moreover from b obtain j where j: "i - length pre = Suc j" "j < length (tl tail)"
      by (cases "i - length pre") auto
    then have "tail ! (i - length pre) = tl tail ! j"
      by (cases tail) auto
    ultimately have "B ! i \<in> set (tl tail)" using j by (metis nth_mem)
    with \<open>header_free (tl tail)\<close> hi show ?thesis by (simp add: header_free_def)
  next
    case 3
    then have "take (Suc i) B = pre @ tail @ take (Suc i - length pre - length tail) post"
      unfolding \<open>B = pre @ tail @ post\<close> by simp
    then have "sublist (concat tail) (concat (take (Suc i) B))"
      by (simp only: sublist_concat_mid)
    with \<open>sublist tail input\<close> \<open>header_free (tl tail)\<close> \<open>M < length (concat tail)\<close>
    show ?thesis unfolding chunk_ok_def oversize_unit_def by blast
  qed
qed

lemma inv_sublist:
  assumes inv: "loop_inv input M k N d0 seen st" and pre: "prefix seen input"
  shows "sublist (st_buffer st) input"
proof -
  from inv have "suffix (st_buffer st) seen" by (simp add: loop_inv_def)
  then have "sublist (st_buffer st) seen" by blast
  moreover from pre have "sublist seen input" by blast
  ultimately show ?thesis by (rule sublist_order.order_trans)
qed

lemma on_package_inv:
  assumes inv: "loop_inv input M k (M + k * L) d0 seen st"
    and pre: "prefix seen input" and L: "\<forall>l\<in>set input. length l \<le> L"
    and p: "on_package st line = Inr st1"
  shows "loop_inv input M k (M + k * L) d0 seen st1"
proof (cases "match_package line")
  case None
  with p have "st1 = st" by (simp add: on_package_def)
  with inv show ?thesis by simp
next
  case (Some name)
  show ?thesis
  proof (cases "st_buffer st = []")
    case True
    with p Some have "st1 = st\<lparr>st_package := Some name\<rparr>" by (simp add: on_package_def)
    with inv show ?thesis by (simp add: loop_inv_def)
  next
    case False
    with p Some obtain self d t where
      f: "flush_buffer (st_splitter st) (st_dir st) (st_buffer st) (st_package st) = Inr (self, d, t)"
      and st1: "st1 = st\<lparr>st_package := Some name, st_buffer := [], st_size := 0,
                         st_tasks := add_task t (st_tasks st), st_splitter := self, st_dir := d\<rparr>"
      by (auto simp: on_package_def split: sum.splits)
    from inv have tb: "tasks_ok input M (M + k * L) (st_tasks st)"
      and ff: "files_ok input M (M + k * L) d0 (st_dir st)"
      and sh: "shape M k (st_buffer st)"
      and mk: "max_chunk_size (st_splitter st) = M" "overlap (st_splitter st) = k"
      by (simp_all add: loop_inv_def)
    from shape_ok [OF sh inv_sublist [OF inv pre] L]
    have ok: "chunk_ok input M (M + k * L) (concat (st_buffer st))" .
    from flush_keeps [OF f ok tb ff] mk st1 show ?thesis
      by (simp add: loop_inv_def shape_def)
  qed
qed

lemma on_overflow_inv:
  assumes inv: "loop_inv input M k (M + k * L) d0 seen st" and k: "0 < k"
    and pre: "prefix seen input" and L: "\<forall>l\<in>set input. length l \<le> L"
    and o: "on_overflow st = Inr st2"
  shows "suffix (st_buffer st2) seen \<and> st_size st2 = length (concat (st_buffer st2))
         \<and> tasks_ok input M (M + k * L) (st_tasks st2)
         \<and> files_ok input M (M + k * L) d0 (st_dir st2)
         \<and> max_chunk_size (st_splitter st2) = M \<and> overlap (st_splitter st2) = k
         \<and> (\<exists>pre tail. st_buffer st2 = pre @ tail \<and> Suc (length pre) \<le> k
               \<and> header_free (tl tail))"
proof -
  let ?N = "M + k * L"
  from inv have suf: "suffix (st_buffer st) seen"
    and tb: "tasks_ok input M ?N (st_tasks st)" and ff: "files_ok input M ?N d0 (st_dir st)"
    and sh: "shape M k (st_buffer st)"
    and mk: "max_chunk_size (st_splitter st) = M" "overlap (st_splitter st) = k"
    by (simp_all add: loop_inv_def)
  note sub = inv_sublist [OF inv pre]
  show ?thesis
  proof (cases "last_config_pos (st_buffer st)")
    case None
    with o obtain self d t where
      f: "flush_buffer (st_splitter st) (st_dir st) (st_buffer st) (st_package st) = Inr (self, d, t)"
      and st2: "st2 = st\<lparr>st_buffer := [], st_size := 0, st_tasks := add_task t (st_tasks st),
                          st_splitter := self, st_dir := d\<rparr>"
      by (auto simp: on_overflow_def split: sum.splits)
    have "\<exists>pre tail. ([]::string list) = pre @ tail \<and> Suc (length pre) \<le> k
            \<and> header_free (tl tail)"
      using k by (simp add: header_free_def)
    with flush_keeps [OF f shape_ok [OF sh sub L] tb ff] mk st2 show ?thesis by simp
  next
    case (Some i)
    let ?B = "st_buffer st"
    from Some have lh: "is_last_header ?B i" by (rule last_config_pos_Some)
    from o Some obtain self d t where
      f: "flush_buffer (st_splitter st) (st_dir st) (take (Suc i) ?B) (st_package st) = Inr (self, d, t)"
      and st2: "st2 = st\<lparr>st_buffer := last_lines (overlap self) (take (Suc i) ?B) @ drop (Suc i) ?B,
                          st_size := sum_list (map length (last_lines (overlap self) (take (Suc i) ?B)
                                          @ drop (Suc i) ?B)),
                          st_tasks := add_task t (st_tasks st), st_splitter := self, st_dir := d\<rparr>"
      by (auto simp: on_overflow_def Let_def split: sum.splits)
    note fk = flush_keeps [OF f part1_ok [OF sh sub L lh] tb ff]
    with mk k have ov: "overlap self = k" "0 < overlap self" by simp_all
    from lh have il: "Suc i \<le> length ?B" by (simp add: is_last_header_def)
    then have lt: "length (take (Suc i) ?B) = Suc i" by simp
    define pre where "pre = drop (Suc i - k) (take i ?B)"
    have e1: "drop (Suc i - k) (take (Suc i) ?B) @ drop (Suc i) ?B = drop (Suc i - k) ?B"
      by (rule drop_take_drop) simp
    have e2: "pre @ drop i ?B = drop (Suc i - k) ?B"
      unfolding pre_def using k by (intro drop_take_drop) simp
    have ll: "last_lines (overlap self) (take (Suc i) ?B) @ drop (Suc i) ?B = pre @ drop i ?B"
      using ov lt e1 e2 by (simp add: last_lines_pos del: take_Suc length_take)
    from il have "length (take i ?B) = i" by simp
    then have lp: "Suc (length pre) \<le> k" using k by (simp add: pre_def)
    have hf0: "header_free (drop (Suc i) ?B)"
      unfolding header_free_def
    proof
      fix l assume "l \<in> set (drop (Suc i) ?B)"
      then obtain j where j: "j < length (drop (Suc i) ?B)" "l = drop (Suc i) ?B ! j"
        by (auto simp: in_set_conv_nth)
      then have "l = ?B ! (Suc i + j)" "i < Suc i + j" "Suc i + j < length ?B"
        using il by auto
      with lh show "\<not> match_config_header l" by (simp add: is_last_header_def)
    qed
    have "tl (drop i ?B) = drop (Suc i) ?B" by (simp add: drop_Suc drop_tl)
    with hf0 have hf: "header_free (tl (drop i ?B))" by simp
    have "suffix (pre @ drop i ?B) ?B" unfolding e2 by (rule suffix_drop)
    from this suf have s2: "suffix (pre @ drop i ?B) seen" by (rule suffix_order.order_trans)
    have sz: "sum_list (map length (pre @ drop i ?B)) = length (concat (pre @ drop i ?B))"
      by (simp only: length_concat)
    from st2 ll have b2: "st_buffer st2 = pre @ drop i ?B"
      and z2: "st_size st2 = sum_list (map length (pre @ drop i ?B))"
      by simp_all
    from st2 have r2: "st_tasks st2 = add_task t (st_tasks st)" "st_splitter st2 = self"
      "st_dir st2 = d" by simp_all
    from fk mk r2 b2 z2 sz s2 lp hf show ?thesis by auto
  qed
qed

lemma split_line_inv:
  assumes inv: "loop_inv input M k (M + k * L) d0 seen st" and k: "0 < k"
    and pre: "prefix (seen @ [line]) input"
    and L: "\<forall>l\<in>set input. length l \<le> L"
    and s: "split_line st line = Inr st'"
  shows "loop_inv input M k (M + k * L) d0 (seen @ [line]) st'"
proof -
  let ?N = "M + k * L"
  from pre have pre0: "prefix seen input" by (rule append_prefixD)
  from s obtain st1 where p: "on_package st line = Inr st1"
    by (auto simp: split_line_def split: sum.splits)
  from on_package_inv [OF inv pre0 L p]
  have inv1: "loop_inv input M k ?N d0 seen st1" .
  from inv1 have mk1: "max_chunk_size (st_splitter st1) = M"
    and sz1: "st_size st1 = length (concat (st_buffer st1))"
    and suf1: "suffix (st_buffer st1) seen"
    by (simp_all add: loop_inv_def)
  show ?thesis
  proof (cases "M < st_size st1 + length line")
    case True
    with s p mk1 obtain st2 where o: "on_overflow st1 = Inr st2"
      and st': "st' = st2\<lparr>st_buffer := st_buffer st2 @ [line], st_size := st_size st2 + length line\<rparr>"
      by (auto simp: split_line_def split: sum.splits)
    from on_overflow_inv [OF inv1 k pre0 L o] obtain pre tail where
      a: "suffix (st_buffer st2) seen" "st_size st2 = length (concat (st_buffer st2))"
         "tasks_ok input M ?N (st_tasks st2)" "files_ok input M ?N d0 (st_dir st2)"
         "max_chunk_size (st_splitter st2) = M" "overlap (st_splitter st2) = k"
      and b: "st_buffer st2 = pre @ tail" "Suc (length pre) \<le> k" "header_free (tl tail)"
      by blast
    have "st_buffer st2 @ [line] = pre @ tail @ [line]" using b(1) by simp
    with b(2,3) have "shape M k (st_buffer st2 @ [line])"
      unfolding shape_def by (intro disjI2 exI [of _ pre] exI [of _ tail] exI [of _ "[line]"]) simp
    moreover from a(1) have "suffix (st_buffer st2 @ [line]) (seen @ [line])" by simp
    ultimately show ?thesis using a st' by (simp add: loop_inv_def)
  next
    case False
    with s p mk1 have st': "st' = st1\<lparr>st_buffer := st_buffer st1 @ [line],
                                       st_size := st_size st1 + length line\<rparr>"
      by (auto simp: split_line_def split: sum.splits)
    from False sz1 have "length (concat (st_buffer st1 @ [line])) \<le> M" by simp
    then have "shape M k (st_buffer st1 @ [line])" by (simp add: shape_def)
    moreover from suf1 have "suffix (st_buffer st1 @ [line]) (seen @ [line])" by simp
    ultimately show ?thesis using inv1 st' sz1 by (simp add: loop_inv_def)
  qed
qed

lemma split_lines_inv:
  assumes k: "0 < k"
    and L: "\<forall>l\<in>set input. length l \<le> L"
  shows "loop_inv input M k (M + k * L) d0 seen st \<Longrightarrow> prefix (seen @ rest) input \<Longrightarrow>
         split_lines st rest = Inr st' \<Longrightarrow> loop_inv input M k (M + k * L) d0 (seen @ rest) st'"
proof (induction rest arbitrary: seen st)
  case Nil
  then show ?case by simp
next
  case (Cons line rest)
  from Cons.prems(3) obtain st1 where s1: "split_line st line = Inr st1"
    and r: "split_lines st1 rest = Inr st'"
    by (auto split: sum.splits)
  from Cons.prems(2) have p1: "prefix (seen @ [line]) input"
    by (metis append.assoc append_Cons append_Nil append_prefixD)
  from split_line_inv [OF Cons.prems(1) k p1 L s1]
  have inv1: "loop_inv input M k (M + k * L) d0 (seen @ [line]) st1" .
  from Cons.prems(2) have p2: "prefix ((seen @ [line]) @ rest) input" by simp
  from Cons.IH [OF inv1 p2 r] show ?case by simp
qed

text \<open>
  For an overlap of at least one line and input lines of at most \<open>L\<close> characters,
  every chunk written has at most \<^verbatim>\<open>max_chunk_size\<close> plus \<open>overlap\<close> times
  \<open>L\<close> characters of content, unless it holds a single unit (a stretch of lines with no
  config header after its first line) that alone is over \<^verbatim>\<open>max_chunk_size\<close>; every
  new file is such a content behind the parent-package line and an empty line.
\<close>

theorem chunk_size_per_chunk:
  assumes k: "0 < overlap self"
    and L: "\<forall>l\<in>set input. length l \<le> L"
    and r: "split_chunks self input d = Inr (self', d', ts)"
  shows "tasks_ok input (max_chunk_size self) (max_chunk_size self + overlap self * L) ts
         \<and> files_ok input (max_chunk_size self) (max_chunk_size self + overlap self * L) d d'"
proof -
  let ?M = "max_chunk_size self" and ?k = "overlap self"
  let ?N = "?M + ?k * L"
  let ?st0 = "\<lparr>st_package = None, st_buffer = [], st_size = 0, st_tasks = [],
                st_splitter = self, st_dir = d\<rparr>"
  have inv0: "loop_inv input ?M ?k ?N d [] ?st0"
    by (auto simp: loop_inv_def shape_def tasks_ok_def files_ok_def)
  from r obtain st where sl: "split_lines ?st0 input = Inr st"
    by (auto simp: split_chunks_def split: sum.splits)
  have "prefix ([] @ input) input" by simp
  from split_lines_inv [OF k L inv0 this sl] have inv: "loop_inv input ?M ?k ?N d input st" by simp
  have pi: "prefix input input" by simp
  from inv have tb: "tasks_ok input ?M ?N (st_tasks st)" and ff: "files_ok input ?M ?N d (st_dir st)"
    and sh: "shape ?M ?k (st_buffer st)"
    by (simp_all add: loop_inv_def)
  from shape_ok [OF sh inv_sublist [OF inv pi] L]
  have ok: "chunk_ok input ?M ?N (concat (st_buffer st))" .
  show ?thesis
  proof (cases "st_buffer st = []")
    case True
    with r sl tb ff show ?thesis by (simp add: split_chunks_def)
  next
    case False
    with r sl obtain t where
      f: "flush_buffer (st_splitter st) (st_dir st) (st_buffer st) (st_package st) = Inr (self', d', t)"
      and ts: "ts = add_task t (st_tasks st)"
      by (auto simp: split_chunks_def split: sum.splits)
    from flush_keeps [OF f ok tb ff] ts show ?thesis by simp
  qed
qed

lemma no_oversize:
  assumes U: "\<forall>ws. sublist ws input \<and> header_free (tl ws) \<longrightarrow> length (concat ws) \<le> M"
  shows "chunk_ok input M N c \<longleftrightarrow> length c \<le> N"
  using U by (auto simp: chunk_ok_def oversize_unit_def)

text \<open>
  In particular, when no unit of the input is over \<^verbatim>\<open>max_chunk_size\<close>, every chunk
  is within \<^verbatim>\<open>max_chunk_size\<close> plus \<open>overlap\<close> times \<open>L\<close>.
\<close>

theorem chunk_size_bound:
  assumes k: "0 < overlap self"
    and L: "\<forall>l\<in>set input. length l \<le> L"
    and U: "\<forall>ws. sublist ws input \<and> header_free (tl ws) \<longrightarrow> length (concat ws) \<le> max_chunk_size self"
    and r: "split_chunks self input d = Inr (self', d', ts)"
  shows "tasks_bounded (max_chunk_size self + overlap self * L) ts
         \<and> files_from d (max_chunk_size self + overlap self * L) d'"
  using chunk_size_per_chunk [OF k L r]
  by (simp add: tasks_ok_def files_ok_def tasks_bounded_def files_from_def no_oversize [OF U])

text \<open>An instance: limit 40, overlap 1, the lines of \<open>example_units\<close>.\<close>

theorem chunk_size_bound_example:
  "case split_chunks (fresh_splitter 40 1) example_units [] of
     Inl e \<Rightarrow> False
   | Inr (self', d', ts) \<Rightarrow>
       tasks_bounded (40 + 1 * 14) ts \<and> files_from [] (40 + 1 * 14) d'
       \<and> map (\<lambda>(f, c, p, n). length c) ts = [23, 40, 40, 27]"
proof -
  have "\<not> isl (split_chunks (fresh_splitter 40 1) example_units [])" by code_simp
  then obtain self' d' ts where
    r: "split_chunks (fresh_splitter 40 1) example_units [] = Inr (self', d', ts)"
    by (metis sum.collapse(2) prod_cases3)
  have k: "0 < overlap (fresh_splitter 40 1)" by (simp add: fresh_splitter_def)
  have U: "\<forall>ws. sublist ws example_units \<and> header_free (tl ws)
             \<longrightarrow> length (concat ws) \<le> max_chunk_size (fresh_splitter 40 1)"
    using header_free_units_bound by (simp add: fresh_splitter_def)
  have l: "map_sum id (\<lambda>(self', d', ts). map (\<lambda>(f, c, p, n). length c) ts)
             (split_chunks (fresh_splitter 40 1) example_units []) = Inr [23, 40, 40, 27]"
    by code_simp
  from chunk_size_bound [OF k units_line_bound U r] l r show ?thesis
    by (simp add: fresh_splitter_def)
qed

text \<open>
  C5: with an overlap of 0 the slice \<^verbatim>\<open>chunk_part1[-self.overlap:]\<close> is
  \<^verbatim>\<open>chunk_part1[0:]\<close>, the whole flushed part, so nothing ever leaves the buffer.
  For a limit of 40 characters and the seven lines of \<open>example_units\<close> (a package line
  of 10 characters and three sections of a header of 13 and an option of 14, so no section
  is over the limit) the chunks are cut behind the headers and hold the first 2, 4, 6 and
  7 lines: 23, 50, 77 and 91 characters.
\<close>

theorem overlap_zero_chunks_grow:
  "map length example_units = [10, 13, 14, 13, 14, 13, 14]
   \<and> map match_config_header example_units = [False, True, False, True, False, True, False]
   \<and> map_sum id (\<lambda>(self', d', ts). (map (\<lambda>(f, c, p, n). c) ts, map (\<lambda>(f, c, p, n). length c) ts))
        (split_chunks (fresh_splitter 40 0) example_units [])
       = Inr ([concat (take 2 example_units), concat (take 4 example_units),
               concat (take 6 example_units), concat example_units], [23, 50, 77, 91])"
  by code_simp

subsection \<open>Failure of persistence\<close>

lemma persist_blocked_fails:
  assumes "persist_blocked (disk_ok s)"
  shows "persist s = Inl OSError"
proof (cases "disk_ok s")
  case Nil
  with assms show ?thesis by (simp add: persist_blocked_def)
next
  case (Cons a as)
  show ?thesis
  proof (cases a)
    case False
    with Cons show ?thesis
      by (simp add: persist_def write_index_def write_persisted_def)
  next
    case True
    with Cons assms obtain bs where "as = False # bs"
      by (cases as) (auto simp: persist_blocked_def)
    with Cons True show ?thesis
      by (simp add: persist_def write_index_def write_mappings_def write_persisted_def)
  qed
qed

lemma register_vector_disk: "disk_ok (register_vector p s) = disk_ok s"
  by (simp add: register_vector_def Let_def)

lemma add_chunks_disk: "add_chunks w cs s = Inr s' \<Longrightarrow> disk_ok s' = disk_ok s"
proof (induction cs arbitrary: s)
  case Nil
  then show ?case by simp
next
  case (Cons c cs)
  then show ?case
    by (auto simp: register_vector_disk split: option.splits if_splits)
qed

lemma add_all_chunks_disk: "add_all_chunks w cs s = Inr s' \<Longrightarrow> disk_ok s' = disk_ok s"
proof (induction cs arbitrary: s)
  case Nil
  then show ?case by simp
next
  case (Cons c cs)
  then show ?case
    by (auto simp: register_vector_disk split: option.splits if_splits)
qed

lemma delete_old_vectors_disk: "disk_ok (delete_old_vectors fs s) = disk_ok s"
  by (simp add: delete_old_vectors_def Let_def)

lemma regenerate_disk:
  "regenerate w pk s acc = Inr (s', cs) \<Longrightarrow> disk_ok s' = disk_ok s"
proof (induction pk arbitrary: s acc)
  case Nil
  then show ?case by simp
next
  case (Cons p pk)
  show ?case
  proof (cases "export_package w p = []")
    case True
    with Cons show ?thesis by simp
  next
    case False
    with Cons.prems obtain self d1 a1 d2 where
      r: "regenerate w pk (s\<lparr>splitter_obj := self, uci_config_dir := d2, uci_annotation_dir := a1\<rparr>)
            (acc @ glob (replace_dots p @ ''_part'') ''.txt'' d2) = Inr (s', cs)"
      by (auto simp: Let_def split: sum.splits)
    from Cons.IH [OF r] show ?thesis by simp
  qed
qed

text \<open>
  C7, as the code has it: when the coming write of the index or of the mapping table
  fails, \<^verbatim>\<open>sync_modified_config\<close> makes no second attempt and ends in an exception,
  whatever later attempts would do; \<^verbatim>\<open>generate_script\<close> catches that exception,
  logs it, and returns its normal response.
\<close>

theorem persist_failure_not_retried:
  assumes "persist_blocked (disk_ok s)"
  shows "\<exists>e. sync_modified_config w packages s = Inl e
           \<and> generate_script_tail w command script message relevant_configs (Inr packages)
                knowledge_id s
              = Inr \<lparr>resp_script = script, resp_execution_result = message,
                      update_failure = Some e\<rparr>"
proof -
  have "\<exists>e. sync_modified_config w packages s = Inl e"
  proof (cases "sync_modified_config w packages s")
    case (Inl e)
    then show ?thesis by blast
  next
    case (Inr r)
    obtain s4 cs where r: "r = (s4, cs)" by (cases r)
    let ?s1 = "delete_old_vectors (old_files packages (uci_config_dir s)) s"
    from Inr r obtain d a s2 s3 where
      g: "regenerate w packages (?s1\<lparr>uci_config_dir := d, uci_annotation_dir := a\<rparr>) [] = Inr (s2, cs)"
      and c: "add_chunks w cs s2 = Inr s3" and p: "persist s3 = Inr s4"
      by (auto simp: sync_modified_config_def Let_def split: sum.splits)
    from regenerate_disk [OF g] add_chunks_disk [OF c]
    have "disk_ok s3 = disk_ok s" by (simp add: delete_old_vectors_disk)
    with assms have "persist s3 = Inl OSError" by (simp add: persist_blocked_fails)
    with p show ?thesis by simp
  qed
  then obtain e where e: "sync_modified_config w packages s = Inl e" ..
  then show ?thesis
    by (simp add: generate_script_tail_def knowledge_update_def)
qed

theorem persist_failure_not_retried_witness:
  "\<exists>e. sync_modified_config example_router [''network''] (start_state\<lparr>disk_ok := [True, False]\<rparr>)
          = Inl e
       \<and> generate_script_tail example_router ''static lan'' ''uci set network.lan.proto=static''
            ''ok'' '''' (Inr [''network'']) ''0a1b2c3d'' (start_state\<lparr>disk_ok := [True, False]\<rparr>)
          = Inr \<lparr>resp_script = ''uci set network.lan.proto=static'',
                  resp_execution_result = ''ok'', update_failure = Some e\<rparr>"
proof -
  have "persist_blocked (disk_ok (start_state\<lparr>disk_ok := [True, False]\<rparr>))"
    by (simp add: persist_blocked_def)
  from persist_failure_not_retried [OF this] show ?thesis .
qed

text \<open>
  C7 as stated fails: one failed write of the index, after which every write would
  succeed, ends the sync with the exception, and the caller of \<^verbatim>\<open>generate_script\<close>
  gets the normal response.
\<close>

theorem persist_failure_counterexample:
  "sync_modified_config example_router [''network''] (start_state\<lparr>disk_ok := [False]\<rparr>)
     = Inl OSError
   \<and> isl (sync_modified_config example_router [''network''] (start_state\<lparr>disk_ok := [False, True, True]\<rparr>))
   \<and> \<not> isl (sync_modified_config example_router [''network''] (start_state\<lparr>disk_ok := [True, True]\<rparr>))
   \<and> generate_script_tail example_router ''static lan'' ''uci set network.lan.proto=static''
        ''ok'' '''' (Inr [''network'']) ''0a1b2c3d'' (start_state\<lparr>disk_ok := [False]\<rparr>)
      = Inr \<lparr>resp_script = ''uci set network.lan.proto=static'',
              resp_execution_result = ''ok'', update_failure = Some OSError\<rparr>"
  by code_simp

subsection \<open>The digest kept between invocations, and the ids of the index\<close>

text \<open>
  C6: the splitter keeps \<^verbatim>\<open>last_buffer_hash\<close> from one invocation to the next. A
  second \<^verbatim>\<open>split_config\<close> on the same one-chunk text, into a directory from which
  the chunk has been removed, writes no chunk file although the input is not empty. An
  input whose first lines precede every package declaration ends in
  \<^verbatim>\<open>AttributeError\<close>, since the package is still \<^verbatim>\<open>None\<close> at the flush.
\<close>

theorem split_config_repeated_input:
  "file_lines network_config \<noteq> []
   \<and> (case split_config (\<lambda>prompt. LlmError) (fresh_splitter 500 20) (file_lines network_config) [] [] of
         Inl e \<Rightarrow> False
       | Inr (self, d, a) \<Rightarrow>
           map fst d = [''network_part1.txt'']
           \<and> split_config (\<lambda>prompt. LlmError) self (file_lines network_config) [] a
               = Inr (self, [], a))
   \<and> split_config (\<lambda>prompt. LlmError) (fresh_splitter 500 20)
        [header_line ''interface'' ''lan'', option_line ''proto'' ''static''] [] []
       = Inl AttributeError"
  by code_simp

text \<open>
  C3: after the full sync of the example router, a first module sync of network writes
  \<^verbatim>\<open>network_part1.txt\<close>; a second one with the same source deletes it and writes
  nothing, and the mapping table shrinks. The same happens from the start state.
\<close>

theorem module_sync_twice_loses_chunk:
  "map_sum id mapping_view
     (and_then (sync_and_split_config example_router start_state)
        (module_sync example_router [''network'']))
     = Inr ([''full_config.uci'', ''wireless_part1.txt'', ''network_part1.txt''],
            [(''uci_configs/wireless_part1.txt'', 1), (''uci_configs/network_part1.txt'', 1)],
            [(1, ''uci_configs/network_part1.txt'')],
            \<lparr>ntotal = 2, stored_ids = [1, 1], added_ever = 3\<rparr>)
   \<and> map_sum id mapping_view
       (and_then (and_then (sync_and_split_config example_router start_state)
          (module_sync example_router [''network''])) (module_sync example_router [''network'']))
     = Inr ([''full_config.uci'', ''wireless_part1.txt''],
            [(''uci_configs/wireless_part1.txt'', 1)], [],
            \<lparr>ntotal = 0, stored_ids = [], added_ever = 3\<rparr>)
   \<and> map_sum id mapping_view (module_sync example_router [''network''] start_state)
     = Inr ([''network_part1.txt''], [(''uci_configs/network_part1.txt'', 0)],
            [(0, ''uci_configs/network_part1.txt'')],
            \<lparr>ntotal = 1, stored_ids = [0], added_ever = 1\<rparr>)
   \<and> map_sum id mapping_view
       (and_then (module_sync example_router [''network''] start_state)
          (module_sync example_router [''network'']))
     = Inr ([], [], [], \<lparr>ntotal = 0, stored_ids = [], added_ever = 1\<rparr>)"
  by code_simp

text \<open>
  C2: the full sync adds two vectors with the ids 0 and 1. The module sync of network
  removes the vector 0, which lowers \<^verbatim>\<open>ntotal\<close> to 1, and records the id 1 for the
  new network chunk: not the number of vectors added so far (2), not above the ids given
  before, and the id of the wireless chunk.
\<close>

theorem new_id_collides_after_removal:
  "map_sum id mapping_view (sync_and_split_config example_router start_state)
     = Inr ([''full_config.uci'', ''network_part1.txt'', ''wireless_part1.txt''],
            [(''uci_configs/network_part1.txt'', 0), (''uci_configs/wireless_part1.txt'', 1)],
            [(0, ''uci_configs/network_part1.txt''), (1, ''uci_configs/wireless_part1.txt'')],
            \<lparr>ntotal = 2, stored_ids = [0, 1], added_ever = 2\<rparr>)
   \<and> map_sum id (\<lambda>s. (map_of (file_path_to_vector_id s) ''uci_configs/network_part1.txt'',
                       map_of (file_path_to_vector_id s) ''uci_configs/wireless_part1.txt'',
                       stored_ids (vector_db s), added_ever (vector_db s)))
       (and_then (sync_and_split_config example_router start_state)
          (module_sync example_router [''network'']))
     = Inr (Some 1, Some 1, [1, 1], 3)"
  by code_simp

text \<open>
  C1: the dictionaries are inverse to each other after the full sync and after registering
  a knowledge unit, but not after registering a knowledge unit for the same command a
  second time (the entry of its first id stays in \<^verbatim>\<open>vector_id_to_file_path\<close>), and
  not after the module sync of network that follows the full sync (the path of the
  wireless chunk maps to the id 1, which maps to the network chunk).
\<close>

theorem mapping_not_inverse_after_sync:
  "map_sum id (\<lambda>s. mutually_inverse (file_path_to_vector_id s) (vector_id_to_file_path s))
     (sync_and_split_config example_router start_state) = Inr True
   \<and> map_sum id (\<lambda>s. mutually_inverse (file_path_to_vector_id s) (vector_id_to_file_path s))
       (and_then (sync_and_split_config example_router start_state)
          (knowledge_update example_router ''open port 80'' ''uci set firewall.web=rule''
             ''ctx'' (Inr [''firewall'']) ''0a1b2c3d'')) = Inr True
   \<and> map_sum id (\<lambda>s. (file_path_to_vector_id s, vector_id_to_file_path s,
                       mutually_inverse (file_path_to_vector_id s) (vector_id_to_file_path s)))
       (and_then (and_then (sync_and_split_config example_router start_state)
          (knowledge_update example_router ''open port 80'' ''uci set firewall.web=rule''
             ''ctx'' (Inr [''firewall'']) ''0a1b2c3d''))
          (knowledge_update example_router ''open port 80'' ''uci set firewall.web=rule''
             ''ctx'' (Inr [''firewall'']) ''0a1b2c3d''))
     = Inr ([(''uci_configs/network_part1.txt'', 0), (''uci_configs/wireless_part1.txt'', 1),
             (''uci_configs/knowledge/knowledge_0a1b2c3d.txt'', 3)],
            [(0, ''uci_configs/network_part1.txt''), (1, ''uci_configs/wireless_part1.txt''),
             (2, ''uci_configs/knowledge/knowledge_0a1b2c3d.txt''),
             (3, ''uci_configs/knowledge/knowledge_0a1b2c3d.txt'')], False)
   \<and> map_sum id (\<lambda>s. mutually_inverse (file_path_to_vector_id s) (vector_id_to_file_path s))
       (and_then (sync_and_split_config example_router start_state)
          (module_sync example_router [''network''])) = Inr False"
  by code_simp

end
